theory Spec2Isabelle
  imports Complex_Main "HOL-Library.Sublist"
begin

section \<open>Errors and small helpers\<close>

text \<open>
  The scripts are Python. Every exception that the modelled code can raise is a value
  of \<open>py_error\<close>; a computation that may raise returns \<open>py_error + 'a\<close>, with
  \<open>Inl\<close> for the exception.
\<close>

datatype py_error =
    KeyError string
  | UnboundLocalError string
  | IndexError
  | ZeroDivisionError
  | ValueError
  | RuntimeError

text \<open>A Python \<open>for\<close> loop whose body may raise: the first exception ends the loop.\<close>

fun for_loop :: "('a \<Rightarrow> 's \<Rightarrow> py_error + 's) \<Rightarrow> 'a list \<Rightarrow> 's \<Rightarrow> py_error + 's" where
  "for_loop body [] s = Inr s"
| "for_loop body (x # xs) s =
     (case body x s of Inl e \<Rightarrow> Inl e | Inr s' \<Rightarrow> for_loop body xs s')"

text \<open>\<open>str(n)\<close> of a non-negative integer: its decimal digits.\<close>

definition digit_char :: "nat \<Rightarrow> char" where
  "digit_char d = char_of (48 + d)"

function str_nat :: "nat \<Rightarrow> string" where
  "str_nat n = (if n < 10 then [digit_char n] else str_nat (n div 10) @ [digit_char (n mod 10)])"
  by pat_completeness auto
termination
  by (relation "measure (\<lambda>n. n)") auto

declare str_nat.simps [simp del]

section \<open>The run configuration file\<close>

text \<open>
  \<open>json.dump\<close> of a dict whose values are strings, integers and floats, and
  \<open>json.load\<close> of the same file. A float is modelled by a real number.
\<close>

datatype json = JStr string | JInt int | JFloat real | JBool bool

type_synonym json_dict = "(string \<times> json) list"

text \<open>
  The command-line arguments of \<open>train_kfold_basic.py\<close> that the model uses; field
  \<open>args_x\<close> is \<open>args.x\<close>.
\<close>

record args =
  args_model :: string
  args_seed :: int
  args_epochs :: int
  args_logging_step :: int
  args_eval_step :: int
  args_checkpoint :: bool
  args_batch_size :: int
  args_valid_batch_size :: int
  args_optimizer :: string
  args_lr :: real
  args_val_ratio :: real
  args_token_type :: string
  args_sep_type :: string
  args_lr_scheduler :: string
  args_kfold_splits :: int

text \<open>\<open>train\<close>, lines 222-233: the dict that is dumped to \<open>model_config_parameters.json\<close>.\<close>

definition model_config_parameters :: "args \<Rightarrow> json_dict" where
  "model_config_parameters a =
     [(''model'', JStr (args_model a)),
      (''seed'', JInt (args_seed a)),
      (''epochs'', JInt (args_epochs a)),
      (''batch_size'', JInt (args_batch_size a)),
      (''token_type'', JStr (args_token_type a)),
      (''optimizer'', JStr (args_optimizer a)),
      (''lr'', JFloat (args_lr a)),
      (''val_ratio'', JFloat (args_val_ratio a)),
      (''sep_type'', JStr (args_sep_type a)),
      (''kfold_splits'', JInt (args_kfold_splits a))]"

text \<open>\<open>mcp[key]\<close>: a missing key raises \<open>KeyError\<close>.\<close>

definition getitem :: "json_dict \<Rightarrow> string \<Rightarrow> py_error + json" where
  "getitem d k = (case map_of d k of None \<Rightarrow> Inl (KeyError k) | Some v \<Rightarrow> Inr v)"

text \<open>
  \<open>inference_kfold.main\<close>, lines 81-84: the six subscripts, in the order in which Python
  evaluates them.
\<close>

record mcp_fields =
  mcp_token_type :: json
  mcp_sep_type :: json
  mcp_kfold_splits :: json
  mcp_model_case :: json
  mcp_use_lstm :: json
  mcp_model_type :: json

definition read_mcp :: "json_dict \<Rightarrow> py_error + mcp_fields" where
  "read_mcp mcp =
     (case getitem mcp ''token_type'' of Inl e \<Rightarrow> Inl e | Inr tt \<Rightarrow>
     (case getitem mcp ''sep_type'' of Inl e \<Rightarrow> Inl e | Inr st \<Rightarrow>
     (case getitem mcp ''kfold_splits'' of Inl e \<Rightarrow> Inl e | Inr ks \<Rightarrow>
     (case getitem mcp ''model_case'' of Inl e \<Rightarrow> Inl e | Inr mc \<Rightarrow>
     (case getitem mcp ''use_lstm'' of Inl e \<Rightarrow> Inl e | Inr ul \<Rightarrow>
     (case getitem mcp ''model'' of Inl e \<Rightarrow> Inl e | Inr mt \<Rightarrow>
        Inr (mcp_fields.make tt st ks mc ul mt)))))))"

section \<open>The metric engine: micro-F1\<close>

text \<open>
  \<open>klue_re_micro_f1\<close> calls \<open>sklearn.metrics.f1_score(labels, preds, average="micro",
  labels=label_indices)\<close>. The library is not part of the repository; what it computes
  for multiclass targets is written out here as the library does it: the arrays must have
  the same length; \<open>tp_sum\<close>, \<open>pred_sum\<close> and \<open>true_sum\<close> are bin counts of the matching
  targets, of the predictions and of the gold labels, restricted to the requested labels
  and summed over them (the micro average); precision and recall are quotients that are 0
  where the denominator is 0; the F-score is \<open>2 * precision * recall / (precision +
  recall)\<close>, and 0 where that denominator is 0. Floats are modelled by real numbers.
\<close>

definition prf_divide :: "real \<Rightarrow> real \<Rightarrow> real" where
  "prf_divide numerator denominator =
     (if denominator = 0 then 0 else numerator / denominator)"

definition bincount_at :: "nat list \<Rightarrow> nat list \<Rightarrow> nat" where
  "bincount_at xs cs = sum_list (map (count_list xs) cs)"

definition f1_score_micro :: "nat list \<Rightarrow> nat list \<Rightarrow> nat list \<Rightarrow> py_error + real" where
  "f1_score_micro y_true y_pred labels =
     (if length y_true \<noteq> length y_pred then Inl ValueError
      else
        let tp_bins = map fst (filter (\<lambda>(t, p). t = p) (zip y_true y_pred));
            tp_sum = real (bincount_at tp_bins labels);
            pred_sum = real (bincount_at y_pred labels);
            true_sum = real (bincount_at y_true labels);
            precision = prf_divide tp_sum pred_sum;
            recall = prf_divide tp_sum true_sum;
            denom = precision + recall
        in Inr (if denom = 0 then 0 else 2 * precision * recall / denom))"

definition label_list :: "string list" where
  "label_list = [''no_relation'', ''org:top_members/employees'', ''org:members'',
       ''org:product'', ''per:title'', ''org:alternate_names'',
       ''per:employee_of'', ''org:place_of_headquarters'', ''per:product'',
       ''org:number_of_employees/members'', ''per:children'',
       ''per:place_of_residence'', ''per:alternate_names'',
       ''per:other_family'', ''per:colleagues'', ''per:origin'', ''per:siblings'',
       ''per:spouse'', ''org:founded'', ''org:political/religious_affiliation'',
       ''org:member_of'', ''per:parents'', ''org:dissolved'',
       ''per:schools_attended'', ''per:date_of_death'', ''per:date_of_birth'',
       ''per:place_of_birth'', ''per:place_of_death'', ''org:founded_by'',
       ''per:religion'']"

text \<open>\<open>list.index\<close>: the position of the first occurrence, \<open>ValueError\<close> when there is none.\<close>

fun list_index :: "'a list \<Rightarrow> 'a \<Rightarrow> py_error + nat" where
  "list_index [] v = Inl ValueError"
| "list_index (x # xs) v =
     (if x = v then Inr 0
      else (case list_index xs v of Inl e \<Rightarrow> Inl e | Inr i \<Rightarrow> Inr (Suc i)))"

text \<open>
  \<open>klue_re_micro_f1\<close> (\<open>train_kfold_basic.py\<close> lines 31-47, the same text in \<open>train.py\<close>
  lines 22-38). \<open>list.remove\<close> deletes the first occurrence, as \<open>remove1\<close> does.
\<close>

definition klue_re_micro_f1 :: "nat list \<Rightarrow> nat list \<Rightarrow> py_error + real" where
  "klue_re_micro_f1 preds labels =
     (case list_index label_list ''no_relation'' of
        Inl e \<Rightarrow> Inl e
      | Inr no_relation_label_idx \<Rightarrow>
          (let label_indices = remove1 no_relation_label_idx [0 ..< length label_list]
           in (case f1_score_micro labels preds label_indices of
                 Inl e \<Rightarrow> Inl e
               | Inr f \<Rightarrow> Inr (f * 100))))"

subsection \<open>The metric as the specification words it\<close>

text \<open>
  Written from the specification, to be compared with the code above: for each class
  \<open>c\<close>, a true positive is an example predicted \<open>c\<close> with gold label \<open>c\<close>, a false
  positive one predicted \<open>c\<close> with another gold label, a false negative one with gold
  label \<open>c\<close> predicted otherwise. The three counts are pooled over the 29 classes
  \<open>1, \<dots>, 29\<close> (all but \<open>no_relation\<close>, which is class 0), and the F1 of the pooled counts
  is \<open>2 TP / (2 TP + FP + FN)\<close>, taken as 0 when there is nothing to count.
\<close>

definition class_tp :: "nat list \<Rightarrow> nat list \<Rightarrow> nat \<Rightarrow> nat" where
  "class_tp preds labels c = length (filter (\<lambda>(p, l). p = c \<and> l = c) (zip preds labels))"

definition class_fp :: "nat list \<Rightarrow> nat list \<Rightarrow> nat \<Rightarrow> nat" where
  "class_fp preds labels c = length (filter (\<lambda>(p, l). p = c \<and> l \<noteq> c) (zip preds labels))"

definition class_fn :: "nat list \<Rightarrow> nat list \<Rightarrow> nat \<Rightarrow> nat" where
  "class_fn preds labels c = length (filter (\<lambda>(p, l). l = c \<and> p \<noteq> c) (zip preds labels))"

definition relation_classes :: "nat list" where
  "relation_classes = [1 ..< 30]"

definition micro_f1_spec :: "nat list \<Rightarrow> nat list \<Rightarrow> real" where
  "micro_f1_spec preds labels =
     (let tp = real (sum_list (map (class_tp preds labels) relation_classes));
          fp = real (sum_list (map (class_fp preds labels) relation_classes));
          fn = real (sum_list (map (class_fn preds labels) relation_classes))
      in if 2 * tp + fp + fn = 0 then 0 else 2 * tp / (2 * tp + fp + fn))"

text \<open>An example touches the score when its prediction or its gold label is a relation class.\<close>

definition is_relation :: "nat \<Rightarrow> bool" where
  "is_relation c = (1 \<le> c \<and> c \<le> 29)"

definition scored_examples :: "nat list \<Rightarrow> nat list \<Rightarrow> (nat \<times> nat) list" where
  "scored_examples preds labels =
     filter (\<lambda>(p, l). is_relation p \<or> is_relation l) (zip preds labels)"

section \<open>The ensemble inference runner\<close>

text \<open>
  A two-dimensional tensor is the list of its rows; its entries are floats, modelled by
  real numbers. The tensor operations of the external library that \<open>inference_kfold.py\<close>
  calls are written out with the library's semantics: \<open>torch.zeros\<close>, \<open>torch.cat\<close> along
  dimension 0, the in-place addition \<open>+=\<close> with its broadcasting rule, division by a
  scalar, \<open>softmax\<close> along the last dimension and \<open>numpy.argmax\<close>.
\<close>

type_synonym tensor = "real list list"

definition n_cols :: "tensor \<Rightarrow> nat" where
  "n_cols t = (case t of [] \<Rightarrow> 0 | r # _ \<Rightarrow> length r)"

definition zeros :: "nat \<Rightarrow> nat \<Rightarrow> tensor" where
  "zeros r c = replicate r (replicate c 0)"

definition has_shape :: "tensor \<Rightarrow> nat \<Rightarrow> nat \<Rightarrow> bool" where
  "has_shape t r c = (length t = r \<and> list_all (\<lambda>row. length row = c) t)"

text \<open>
  \<open>torch.cat(ts, dim=0)\<close> raises for an empty list and for tensors whose row lengths
  differ; otherwise the rows of the tensors follow one another in the order of the list.
\<close>

definition torch_cat :: "tensor list \<Rightarrow> py_error + tensor" where
  "torch_cat ts =
     (if ts = [] then Inl RuntimeError
      else if list_all (\<lambda>t. n_cols t = n_cols (hd ts)) ts then Inr (concat ts)
      else Inl RuntimeError)"

text \<open>
  \<open>self += other\<close> on tensors: \<open>other\<close> is broadcast to the shape of \<open>self\<close>, which an
  in-place operation never changes. A dimension of \<open>other\<close> fits when it has the size of
  that dimension of \<open>self\<close> or size 1; a dimension of size 1 is repeated. Any other shape
  raises.
\<close>

definition tensor_of :: "nat \<Rightarrow> nat \<Rightarrow> (nat \<Rightarrow> nat \<Rightarrow> real) \<Rightarrow> tensor" where
  "tensor_of r c entry = map (\<lambda>i. map (\<lambda>j. entry i j) [0 ..< c]) [0 ..< r]"

definition iadd :: "tensor \<Rightarrow> tensor \<Rightarrow> py_error + tensor" where
  "iadd self other =
     (let R = length self; C = n_cols self; r = length other; c = n_cols other
      in if (r = R \<or> r = 1) \<and> (c = C \<or> c = 1)
         then Inr (tensor_of R C
                     (\<lambda>i j. self ! i ! j
                             + other ! (if r = 1 then 0 else i) ! (if c = 1 then 0 else j)))
         else Inl RuntimeError)"

text \<open>
  \<open>probs / kfold_splits\<close>. The floats of the library have a quotient by 0 (\<open>nan\<close> or
  \<open>inf\<close>), the real numbers of HOL give 0 there; the statements below are about runs
  with at least one fold.
\<close>

definition div_scalar :: "tensor \<Rightarrow> int \<Rightarrow> tensor" where
  "div_scalar t k = map (map (\<lambda>x. x / real_of_int k)) t"

definition softmax :: "real list \<Rightarrow> real list" where
  "softmax xs = map (\<lambda>x. exp x / sum_list (map exp xs)) xs"

text \<open>\<open>numpy.argmax\<close> of a row: the first position that holds the largest entry.\<close>

fun argmax_from :: "nat \<Rightarrow> real \<Rightarrow> nat \<Rightarrow> real list \<Rightarrow> nat" where
  "argmax_from best_i best_v i [] = best_i"
| "argmax_from best_i best_v i (x # xs) =
     (if best_v < x then argmax_from i x (Suc i) xs else argmax_from best_i best_v (Suc i) xs)"

definition argmax :: "real list \<Rightarrow> py_error + nat" where
  "argmax xs = (case xs of [] \<Rightarrow> Inl ValueError | x # rest \<Rightarrow> Inr (argmax_from 0 x 1 rest))"

text \<open>
  \<open>DataLoader(dataset, batch_size=n, shuffle=False)\<close>: the examples in dataset order, cut
  into batches of \<open>n\<close>, the last one shorter when \<open>n\<close> does not divide the size. A batch
  size that is not positive is refused.
\<close>

function batches :: "nat \<Rightarrow> 'a list \<Rightarrow> 'a list list" where
  "batches n xs = (if n = 0 \<or> xs = [] then [] else take n xs # batches n (drop n xs))"
  by pat_completeness auto
termination
  by (relation "measure (\<lambda>(n, xs). length xs)") auto

declare batches.simps [simp del]

definition data_loader :: "int \<Rightarrow> 'a list \<Rightarrow> py_error + 'a list list" where
  "data_loader batch_size dataset =
     (if batch_size \<le> 0 then Inl ValueError else Inr (batches (nat batch_size) dataset))"

text \<open>
  A loaded classifier is its forward pass in evaluation mode: from a collated batch to
  the logits, one row per example. The flag says whether \<open>token_type_ids\<close> are passed
  (they are not when the model identifier contains \<open>xlm\<close>).
\<close>

type_synonym 'e classifier = "bool \<Rightarrow> 'e list \<Rightarrow> tensor"

text \<open>\<open>inference\<close>, lines 16-44.\<close>

definition inference :: "'e classifier \<Rightarrow> 'e list \<Rightarrow> string \<Rightarrow> int \<Rightarrow> py_error + tensor" where
  "inference model tokenized_sent model_type batch_size =
     (case data_loader batch_size tokenized_sent of
        Inl e \<Rightarrow> Inl e
      | Inr dataloader \<Rightarrow>
          (let output_prob =
                 foldl (\<lambda>output_prob data.
                          output_prob @ [model (\<not> sublist ''xlm'' model_type) data])
                   [] dataloader
           in torch_cat output_prob))"

text \<open>\<open>num_to_label\<close>, lines 47-57; the pickled dictionary is a parameter.\<close>

fun num_to_label :: "(nat \<rightharpoonup> string) \<Rightarrow> nat list \<Rightarrow> py_error + string list" where
  "num_to_label dict_num_to_label [] = Inr []"
| "num_to_label dict_num_to_label (v # label) =
     (case dict_num_to_label v of
        None \<Rightarrow> Inl (KeyError (str_nat v))
      | Some l \<Rightarrow>
          (case num_to_label dict_num_to_label label of
             Inl e \<Rightarrow> Inl e
           | Inr origin_label \<Rightarrow> Inr (l # origin_label)))"

text \<open>Row-wise \<open>argmax\<close> of a tensor.\<close>

fun argmax_rows :: "tensor \<Rightarrow> py_error + nat list" where
  "argmax_rows [] = Inr []"
| "argmax_rows (r # rs) =
     (case argmax r of
        Inl e \<Rightarrow> Inl e
      | Inr p \<Rightarrow> (case argmax_rows rs of Inl e \<Rightarrow> Inl e | Inr ps \<Rightarrow> Inr (p # ps)))"

text \<open>
  \<open>pandas.DataFrame\<close> from the id column of the test frame and two lists: the lists must
  have as many entries as the frame has rows; row \<open>i\<close> of the result holds the \<open>i\<close>-th entry
  of each.
\<close>

record 'i prediction =
  id_col :: 'i
  pred_label_col :: string
  probs_col :: "real list"

definition data_frame ::
  "'i list \<Rightarrow> string list \<Rightarrow> real list list \<Rightarrow> py_error + 'i prediction list" where
  "data_frame test_id pred_answer probs_list =
     (if length pred_answer = length test_id \<and> length probs_list = length test_id
      then Inr (map (\<lambda>(i, l, p). \<lparr>id_col = i, pred_label_col = l, probs_col = p\<rparr>)
                  (zip test_id (zip pred_answer probs_list)))
      else Inl ValueError)"

text \<open>
  \<open>main\<close>, lines 102-117: the accumulator of 7765 rows and 30 columns, and the loop that
  adds each fold's logits to it. \<open>models kfold_idx\<close> is the classifier loaded from the
  directory of fold \<open>kfold_idx\<close>.
\<close>

definition accumulate_logits ::
  "(nat \<Rightarrow> 'e classifier) \<Rightarrow> 'e list \<Rightarrow> string \<Rightarrow> int \<Rightarrow> int \<Rightarrow> py_error + tensor" where
  "accumulate_logits models Re_test_dataset model_type batch_size kfold_splits =
     for_loop
       (\<lambda>kfold_idx probs.
          (case inference (models kfold_idx) Re_test_dataset model_type batch_size of
             Inl e \<Rightarrow> Inl e
           | Inr prob_answer \<Rightarrow> iadd probs prob_answer))
       [0 ..< nat kfold_splits]
       (zeros 7765 30)"

text \<open>
  \<open>main\<close>, lines 96-131, entered with the fields \<open>model_type\<close> and \<open>kfold_splits\<close> that
  lines 81-84 read from the configuration file. The loaded test frame is the list of its
  rows, each an id and a tokenized example; \<open>data_idx\<close> is the number drawn at line 99
  for the example that line 100 prints (the dataset class is not among the sources:
  indexing it past its end raises \<open>IndexError\<close>). The result is the table that is
  written to the prediction file, row by row. Loading the tokenizer and the checkpoints
  of the folds (lines 86-113) is not modelled: \<open>models\<close> gives the loaded classifiers.
\<close>

definition main ::
  "(nat \<rightharpoonup> string) \<Rightarrow> (nat \<Rightarrow> 'e classifier) \<Rightarrow> string \<Rightarrow> int \<Rightarrow> int \<Rightarrow> nat \<Rightarrow>
   ('i \<times> 'e) list \<Rightarrow> py_error + 'i prediction list" where
  "main dict_num_to_label models model_type kfold_splits batch_size data_idx test_rows =
     (let test_id = map fst test_rows;
          Re_test_dataset = map snd test_rows
      in if length Re_test_dataset \<le> data_idx then Inl IndexError
         else
           (case accumulate_logits models Re_test_dataset model_type batch_size kfold_splits of
              Inl e \<Rightarrow> Inl e
            | Inr summed \<Rightarrow>
                (let averaged = div_scalar summed kfold_splits;
                     probs_list = map softmax averaged
                 in (case argmax_rows probs_list of
                       Inl e \<Rightarrow> Inl e
                     | Inr preds \<Rightarrow>
                         (case num_to_label dict_num_to_label preds of
                            Inl e \<Rightarrow> Inl e
                          | Inr pred_answer \<Rightarrow> data_frame test_id pred_answer probs_list)))))"

subsection \<open>Words of the specification about the ensemble\<close>

text \<open>
  A classifier is well shaped when its logits have one row per example of the batch and
  \<open>c\<close> columns.
\<close>

definition well_shaped :: "nat \<Rightarrow> 'e classifier \<Rightarrow> bool" where
  "well_shaped c model =
     (\<forall>flag batch. length (model flag batch) = length batch
                  \<and> list_all (\<lambda>row. length row = c) (model flag batch))"

text \<open>The raw logits of one fold for the whole test set: batch after batch, in order.\<close>

definition raw_logits :: "'e classifier \<Rightarrow> 'e list \<Rightarrow> string \<Rightarrow> int \<Rightarrow> tensor" where
  "raw_logits model dataset model_type batch_size =
     concat (map (model (\<not> sublist ''xlm'' model_type)) (batches (nat batch_size) dataset))"

text \<open>The arithmetic mean over the folds of the logits of example \<open>i\<close>, class by class.\<close>

definition mean_logits :: "tensor list \<Rightarrow> nat \<Rightarrow> real list" where
  "mean_logits fold_logits i =
     map (\<lambda>j. sum_list (map (\<lambda>L. L ! i ! j) fold_logits) / real (length fold_logits))
       [0 ..< 30]"

text \<open>The class that \<open>argmax\<close> is meant to pick: a largest entry, the first of them.\<close>

definition is_argmax :: "real list \<Rightarrow> nat \<Rightarrow> bool" where
  "is_argmax xs p =
     (p < length xs \<and> (\<forall>j < length xs. xs ! j \<le> xs ! p) \<and> (\<forall>j < p. xs ! j < xs ! p))"

text \<open>The logits of all folds, fold 0 first.\<close>

definition fold_logits ::
  "(nat \<Rightarrow> 'e classifier) \<Rightarrow> 'e list \<Rightarrow> string \<Rightarrow> int \<Rightarrow> int \<Rightarrow> tensor list" where
  "fold_logits models dataset model_type batch_size kfold_splits =
     map (\<lambda>kfold_idx. raw_logits (models kfold_idx) dataset model_type batch_size)
       [0 ..< nat kfold_splits]"

subsection \<open>A small instance\<close>

text \<open>
  Classifiers whose logits are all zero, a dictionary for the 30 labels and a test frame
  of 7765 rows with the ids 0, 1, \<dots>: concrete inputs on which the statements below are
  evaluated.
\<close>

definition zero_classifier :: "'e classifier" where
  "zero_classifier flag batch = map (\<lambda>e. replicate 30 0) batch"

definition zero_models :: "nat \<Rightarrow> 'e classifier" where
  "zero_models kfold_idx = zero_classifier"

definition example_dict :: "nat \<rightharpoonup> string" where
  "example_dict = map_of (zip [0 ..< 30] label_list)"

definition example_rows :: "(nat \<times> unit) list" where
  "example_rows = zip [0 ..< 7765] (replicate 7765 ())"

section \<open>The k-fold orchestrator\<close>

subsection \<open>The report text\<close>

text \<open>\<open>"%4d" % n\<close> and \<open>"%-3d" % n\<close> for a non-negative \<open>n\<close>: padding with blanks to a least width.\<close>

definition fmt_right :: "nat \<Rightarrow> nat \<Rightarrow> string" where
  "fmt_right width n = replicate (width - length (str_nat n)) CHR '' '' @ str_nat n"

definition fmt_left :: "nat \<Rightarrow> nat \<Rightarrow> string" where
  "fmt_left width n = str_nat n @ replicate (width - length (str_nat n)) CHR '' ''"

definition newline :: string where
  "newline = [CHR 0x0A]"

text \<open>\<open>str_cf\<close>, lines 106-119; the entries of a confusion matrix are counts.\<close>

definition str_cf :: "nat list list \<Rightarrow> string" where
  "str_cf cf =
     (let result = ''     '';
          result = foldl (\<lambda>result i. result @ fmt_right 4 i) result [0 ..< 30];
          result = result @ newline @ ''    '';
          result = result @ (concat (replicate 30 ''----'') @ newline)
      in fst (foldl
           (\<lambda>(result, idx) i.
              (let result = result @ (fmt_left 3 idx @ ''| '');
                   idx = idx + 1;
                   result = foldl (\<lambda>result j. result @ fmt_right 4 j) result i
               in (result @ newline, idx)))
           (result, 0) cf))"

subsection \<open>What the run works on\<close>

text \<open>
  One validation pass (lines 295-329) yields the averaged loss and micro-F1, the
  confusion matrix and the text of sklearn's classification report.
\<close>

record eval_result =
  ev_loss :: real
  ev_f1 :: real
  ev_cf :: "nat list list"
  ev_cr :: string

text \<open>
  The files under \<open>save_dir\<close>: the configuration file, \<open>report.txt\<close> of each fold
  directory, and the directories written by \<open>save_pretrained\<close>, which hold model weights
  of type \<open>'w\<close>. A fold directory is named by the fold index, a checkpoint directory by
  its tag: \<open>checkpoint-N\<close>, \<open>best_loss\<close> or \<open>best_f1\<close>.
\<close>

datatype ckpt_tag = Periodic nat | Best_loss | Best_f1

record 'w files =
  config_file :: "json_dict option"
  report_files :: "nat \<Rightarrow> string option"
  checkpoint_dirs :: "nat \<times> ckpt_tag \<Rightarrow> 'w option"

text \<open>
  The evaluation passes of a run in the order in which they happen, as the console
  shows them (the \<open>[EVAL]\<close> lines printed at lines 300 and 363-364): fold, step
  counter, and the result of the pass. This log is an observation of the run, not a
  variable of the program; nothing in the model reads it.
\<close>

record eval_event =
  tr_fold :: nat
  tr_step :: nat
  tr_result :: eval_result

text \<open>
  The local variables of \<open>train\<close> that the loops assign, with the files and the console
  log. \<open>st_x\<close> is the variable \<open>x\<close>. The variable \<open>eval_average_loss\<close> is first assigned
  inside an evaluation pass and is read at the end of every epoch, so the model says
  whether it is assigned (\<open>None\<close>: not yet). The other variables are assigned at the
  start of each fold before anything reads them; their values at the very start of the
  run stand for variables that are not assigned yet.
\<close>

record ('w, 'o) locals =
  st_fs :: "'w files"
  st_trace :: "eval_event list"
  st_model :: 'w
  st_optim :: 'o
  st_best_eval_loss :: real
  st_best_eval_f1 :: real
  st_total_idx :: nat
  st_eval_average_loss :: "real option"

text \<open>
  What the external libraries compute, as parameters of the model. For fold \<open>k\<close>:
  \<open>new_model k\<close> is the model built at lines 167-175 from the pretrained identifier,
  \<open>new_optim k m\<close> the optimizer (with its scheduler) built over that model at lines
  189-216, \<open>train_size k\<close> the number of training examples of the fold,
  \<open>train_step k epoch idx\<close> the effect of lines 263-279 on model and optimizer for batch
  \<open>idx\<close> of the epoch, \<open>evaluate k step m\<close> the validation pass of lines 295-329 on model
  \<open>m\<close>; \<open>plateau_step\<close> and \<open>steplr_step\<close> are \<open>scheduler.step\<close> of the two schedulers.
  \<open>train_data_idx\<close> is the number drawn at line 124 for the example printed at line 162 (the
  dataset class is not among the sources: indexing it past its end raises
  \<open>IndexError\<close>).
\<close>

record ('w, 'o) env =
  new_model :: "nat \<Rightarrow> 'w"
  new_optim :: "nat \<Rightarrow> 'w \<Rightarrow> 'o"
  train_size :: "nat \<Rightarrow> nat"
  train_step :: "nat \<Rightarrow> nat \<Rightarrow> nat \<Rightarrow> 'w \<times> 'o \<Rightarrow> 'w \<times> 'o"
  evaluate :: "nat \<Rightarrow> nat \<Rightarrow> 'w \<Rightarrow> eval_result"
  plateau_step :: "real \<Rightarrow> 'o \<Rightarrow> 'o"
  steplr_step :: "'o \<Rightarrow> 'o"
  train_data_idx :: nat

subsection \<open>The evaluation checkpoint\<close>

text \<open>Lines 331-334: the text that one evaluation appends to the report.\<close>

definition report_entry :: "nat \<Rightarrow> eval_result \<Rightarrow> string" where
  "report_entry total_idx r =
     (replicate 10 CHR ''#'' @ ''  '' @ str_nat total_idx @ ''  '' @ replicate 100 CHR ''#'' @ newline)
     @ str_cf (ev_cf r) @ ev_cr r @ newline"

text \<open>\<open>open(path, "a")\<close> and \<open>write\<close>: the text goes after what the file holds; a missing file is created.\<close>

definition append_file :: "string option \<Rightarrow> string \<Rightarrow> string option" where
  "append_file content text = Some ((case content of None \<Rightarrow> [] | Some old \<Rightarrow> old) @ text)"

definition save_pretrained :: "nat \<Rightarrow> ckpt_tag \<Rightarrow> 'w \<Rightarrow> 'w files \<Rightarrow> 'w files" where
  "save_pretrained kfold_idx tag w files =
     files\<lparr>checkpoint_dirs := (checkpoint_dirs files)((kfold_idx, tag) \<mapsto> w)\<rparr>"

text \<open>
  Lines 295-366, entered when the step counter is a multiple of \<open>eval_step\<close>: the
  validation pass, the report, the periodic checkpoint, the two best checkpoints with
  their trackers, and the console line.
\<close>

definition eval_checkpoint ::
  "('w, 'o) env \<Rightarrow> args \<Rightarrow> nat \<Rightarrow> ('w, 'o) locals \<Rightarrow> ('w, 'o) locals" where
  "eval_checkpoint env a kfold_idx s =
     (let r = evaluate env kfold_idx (st_total_idx s) (st_model s);
          s = s\<lparr>st_eval_average_loss := Some (ev_loss r)\<rparr>;
          s = s\<lparr>st_fs := (st_fs s)\<lparr>report_files := (report_files (st_fs s))
                   (kfold_idx := append_file (report_files (st_fs s) kfold_idx)
                                   (report_entry (st_total_idx s) r))\<rparr>\<rparr>;
          s = (if args_checkpoint a
               then s\<lparr>st_fs := save_pretrained kfold_idx (Periodic (st_total_idx s))
                                   (st_model s) (st_fs s)\<rparr>
               else s);
          s = (if ev_loss r < st_best_eval_loss s
               then s\<lparr>st_fs := save_pretrained kfold_idx Best_loss (st_model s) (st_fs s),
                       st_best_eval_loss := ev_loss r\<rparr>
               else s);
          s = (if ev_f1 r > st_best_eval_f1 s
               then s\<lparr>st_fs := save_pretrained kfold_idx Best_f1 (st_model s) (st_fs s),
                       st_best_eval_f1 := ev_f1 r\<rparr>
               else s)
      in s\<lparr>st_trace := st_trace s
              @ [\<lparr>tr_fold = kfold_idx, tr_step = st_total_idx s, tr_result = r\<rparr>]\<rparr>)"

subsection \<open>Batch, epoch, fold, run\<close>

text \<open>
  One iteration of the loop over \<open>train_loader\<close>, lines 263-366. \<open>idx % logging_step\<close>
  and \<open>total_idx % eval_step\<close> raise when the divisor is 0.
\<close>

definition train_batch ::
  "('w, 'o) env \<Rightarrow> args \<Rightarrow> nat \<Rightarrow> nat \<Rightarrow> nat \<Rightarrow> ('w, 'o) locals \<Rightarrow> py_error + ('w, 'o) locals" where
  "train_batch env a kfold_idx epoch idx s =
     (let s = s\<lparr>st_total_idx := st_total_idx s + 1\<rparr>;
          (w, opt) = train_step env kfold_idx epoch idx (st_model s, st_optim s);
          s = s\<lparr>st_model := w, st_optim := opt\<rparr>
      in if args_logging_step a = 0 then Inl ZeroDivisionError
         else if args_eval_step a = 0 then Inl ZeroDivisionError
         else if int (st_total_idx s) mod args_eval_step a = 0
              then Inr (eval_checkpoint env a kfold_idx s)
              else Inr s)"

text \<open>The number of batches of an epoch: \<open>len(train_loader)\<close> with \<open>drop_last = True\<close>.\<close>

definition n_batches :: "('w, 'o) env \<Rightarrow> args \<Rightarrow> nat \<Rightarrow> nat" where
  "n_batches env a kfold_idx = train_size env kfold_idx div nat (args_batch_size a)"

text \<open>
  One epoch, lines 257-381: the batches, then the scheduler. \<open>scheduler.step(eval_average_loss)\<close>
  reads the variable \<open>eval_average_loss\<close>; reading a local variable that is not assigned
  raises \<open>UnboundLocalError\<close>.
\<close>

definition train_epoch ::
  "('w, 'o) env \<Rightarrow> args \<Rightarrow> nat \<Rightarrow> nat \<Rightarrow> ('w, 'o) locals \<Rightarrow> py_error + ('w, 'o) locals" where
  "train_epoch env a kfold_idx epoch s =
     (case for_loop (train_batch env a kfold_idx epoch) [0 ..< n_batches env a kfold_idx] s of
        Inl e \<Rightarrow> Inl e
      | Inr s \<Rightarrow>
          if args_lr_scheduler a = ''reduceLR''
          then (case st_eval_average_loss s of
                  None \<Rightarrow> Inl (UnboundLocalError ''eval_average_loss'')
                | Some eval_average_loss \<Rightarrow>
                    Inr (s\<lparr>st_optim := plateau_step env eval_average_loss (st_optim s)\<rparr>))
          else if args_lr_scheduler a = ''StepLR''
          then Inr (s\<lparr>st_optim := steplr_step env (st_optim s)\<rparr>)
          else Inr s)"

text \<open>
  The start of a fold, lines 147-255: a new model and optimizer, the configuration file
  (written again in every fold, with the same content), the report file opened with
  mode \<open>'w'\<close> and closed at once, which leaves it empty, and the trackers and the step
  counter set to their initial values.
\<close>

definition fold_init ::
  "('w, 'o) env \<Rightarrow> args \<Rightarrow> nat \<Rightarrow> ('w, 'o) locals \<Rightarrow> ('w, 'o) locals" where
  "fold_init env a kfold_idx st =
     (let model = new_model env kfold_idx;
          optim = new_optim env kfold_idx model;
          files = (st_fs st)\<lparr>config_file := Some (model_config_parameters a)\<rparr>;
          files = files\<lparr>report_files := (report_files files)(kfold_idx \<mapsto> [])\<rparr>
      in st\<lparr>st_fs := files, st_model := model, st_optim := optim,
             st_best_eval_loss := 1000000000, st_best_eval_f1 := 0, st_total_idx := 0\<rparr>)"

text \<open>
  One fold, lines 147-385. \<open>DataLoader\<close> refuses a batch size that is not positive.
\<close>

definition train_fold ::
  "('w, 'o) env \<Rightarrow> args \<Rightarrow> nat \<Rightarrow> ('w, 'o) locals \<Rightarrow> py_error + ('w, 'o) locals" where
  "train_fold env a kfold_idx st =
     (if train_size env kfold_idx \<le> train_data_idx env then Inl IndexError
      else if args_batch_size a \<le> 0 \<or> args_valid_batch_size a \<le> 0 then Inl ValueError
      else for_loop (train_epoch env a kfold_idx) [0 ..< nat (args_epochs a)]
             (fold_init env a kfold_idx st))"

text \<open>
  \<open>train\<close>, lines 122-385. \<open>StratifiedKFold\<close> refuses fewer than two splits. Seeding,
  loading and tokenizing the data, the training metrics that are only printed, and
  logging to the experiment tracker (\<open>wandb\<close>) are left out.
\<close>

definition train ::
  "('w, 'o) env \<Rightarrow> args \<Rightarrow> ('w, 'o) locals \<Rightarrow> py_error + ('w, 'o) locals" where
  "train env a st =
     (if args_kfold_splits a < 2 then Inl ValueError
      else for_loop (train_fold env a) [0 ..< nat (args_kfold_splits a)] st)"

subsection \<open>Words of the specification about a fold\<close>

text \<open>The evaluations of fold \<open>k\<close> so far, oldest first.\<close>

definition fold_events :: "nat \<Rightarrow> ('w, 'o) locals \<Rightarrow> eval_event list" where
  "fold_events k s = filter (\<lambda>e. tr_fold e = k) (st_trace s)"

definition fold_losses :: "nat \<Rightarrow> ('w, 'o) locals \<Rightarrow> real list" where
  "fold_losses k s = map (\<lambda>e. ev_loss (tr_result e)) (fold_events k s)"

definition fold_f1s :: "nat \<Rightarrow> ('w, 'o) locals \<Rightarrow> real list" where
  "fold_f1s k s = map (\<lambda>e. ev_f1 (tr_result e)) (fold_events k s)"

text \<open>
  The trackers of fold \<open>k\<close> hold the least loss and the greatest F1 of the fold's
  evaluations so far, the initial values 1e9 and 0 counted among them.
\<close>

definition trackers_ok :: "nat \<Rightarrow> ('w, 'o) locals \<Rightarrow> bool" where
  "trackers_ok k s =
     (st_best_eval_loss s = Min (set (1000000000 # fold_losses k s))
      \<and> st_best_eval_f1 s = Max (set (0 # fold_f1s k s)))"

text \<open>The report of fold \<open>k\<close> is the text of the fold's evaluations, one after the other.\<close>

definition report_of_events :: "eval_event list \<Rightarrow> string" where
  "report_of_events es = concat (map (\<lambda>e. report_entry (tr_step e) (tr_result e)) es)"

subsection \<open>The state of the files during a run\<close>

text \<open>
  What holds of fold \<open>i\<close> from the moment the fold has started: its report is exactly
  the text of its evaluations so far; once an evaluation of the fold has had a loss below
  1e9 there is a \<open>best_loss\<close> checkpoint, and once one has had an F1 above 0 there is a
  \<open>best_f1\<close> checkpoint.
\<close>

definition fold_facts :: "nat \<Rightarrow> ('w, 'o) locals \<Rightarrow> bool" where
  "fold_facts i s =
     (report_files (st_fs s) i = Some (report_of_events (fold_events i s))
      \<and> ((\<exists>e \<in> set (fold_events i s). ev_loss (tr_result e) < 1000000000)
            \<longrightarrow> checkpoint_dirs (st_fs s) (i, Best_loss) \<noteq> None)
      \<and> ((\<exists>e \<in> set (fold_events i s). 0 < ev_f1 (tr_result e))
            \<longrightarrow> checkpoint_dirs (st_fs s) (i, Best_f1) \<noteq> None))"

text \<open>The directory of fold \<open>i\<close> is as it was in the files \<open>f0\<close>.\<close>

definition untouched :: "'w files \<Rightarrow> nat \<Rightarrow> ('w, 'o) locals \<Rightarrow> bool" where
  "untouched f0 i s =
     (report_files (st_fs s) i = report_files f0 i
      \<and> (\<forall>tag. checkpoint_dirs (st_fs s) (i, tag) = checkpoint_dirs f0 (i, tag)))"

text \<open>
  Between two folds, when the folds below \<open>m\<close> are done; and during fold \<open>k\<close>. \<open>f0\<close> are
  the files at the start of the run.
\<close>

definition folds_done :: "'w files \<Rightarrow> nat \<Rightarrow> ('w, 'o) locals \<Rightarrow> bool" where
  "folds_done f0 m s =
     ((\<forall>e \<in> set (st_trace s). tr_fold e < m)
      \<and> (\<forall>i < m. fold_facts i s)
      \<and> (\<forall>i \<ge> m. untouched f0 i s))"

definition in_fold :: "'w files \<Rightarrow> nat \<Rightarrow> ('w, 'o) locals \<Rightarrow> bool" where
  "in_fold f0 k s =
     ((\<forall>e \<in> set (st_trace s). tr_fold e \<le> k)
      \<and> (\<forall>i \<le> k. fold_facts i s)
      \<and> (\<forall>i > k. untouched f0 i s)
      \<and> trackers_ok k s)"

subsection \<open>A small run\<close>

text \<open>
  The scenario of the specification: ten rows, two folds of five training rows each, one
  epoch, batches of five, an evaluation after every step. The model is the number of
  optimizer steps it has taken, and every validation pass reports the given loss and F1.
\<close>

definition example_env :: "real \<Rightarrow> real \<Rightarrow> (nat, nat) env" where
  "example_env l f =
     \<lparr>new_model = (\<lambda>k. 0),
      new_optim = (\<lambda>k m. 0),
      train_size = (\<lambda>k. 5),
      train_step = (\<lambda>k epoch idx (w, opt). (Suc w, opt)),
      evaluate = (\<lambda>k step w. \<lparr>ev_loss = l, ev_f1 = f, ev_cf = [[3, 0], [2, 0]], ev_cr = ''report''\<rparr>),
      plateau_step = (\<lambda>loss opt. Suc opt),
      steplr_step = Suc,
      train_data_idx = 0\<rparr>"

definition example_args :: args where
  "example_args =
     \<lparr>args_model = ''klue/roberta-large'', args_seed = 42, args_epochs = 1,
      args_logging_step = 100, args_eval_step = 1, args_checkpoint = False,
      args_batch_size = 5, args_valid_batch_size = 5, args_optimizer = ''AdamW'',
      args_lr = 5 / 100000, args_val_ratio = 1 / 10, args_token_type = ''origin'',
      args_sep_type = ''SEP'', args_lr_scheduler = ''reduceLR'', args_kfold_splits = 2\<rparr>"

definition no_files :: "nat files" where
  "no_files = \<lparr>config_file = None, report_files = (\<lambda>k. None), checkpoint_dirs = (\<lambda>d. None)\<rparr>"

definition start_locals :: "nat files \<Rightarrow> (nat, nat) locals" where
  "start_locals files =
     \<lparr>st_fs = files, st_trace = [], st_model = 0, st_optim = 0, st_best_eval_loss = 0,
      st_best_eval_f1 = 0, st_total_idx = 0, st_eval_average_loss = None\<rparr>"

definition old_files :: "nat files" where
  "old_files = no_files\<lparr>report_files := (report_files no_files)(0 \<mapsto> ''earlier run'')\<rparr>"

section \<open>Theorems\<close>

subsection \<open>Loops\<close>

lemma for_loop_append:
  "for_loop body (xs @ ys) s =
     (case for_loop body xs s of Inl e \<Rightarrow> Inl e | Inr s' \<Rightarrow> for_loop body ys s')"
  by (induction xs arbitrary: s) (auto split: sum.splits)

text \<open>A property that every iteration keeps holds after the loop.\<close>

lemma for_loop_invariant:
  assumes step: "\<And>x s s'. P s \<Longrightarrow> body x s = Inr s' \<Longrightarrow> P s'"
    and init: "P s" and run: "for_loop body xs s = Inr s'"
  shows "P s'"
  using init run
proof (induction xs arbitrary: s)
  case Nil
  then show ?case by simp
next
  case (Cons x xs)
  from Cons.prems(2) obtain s1 where s1: "body x s = Inr s1"
    and rest: "for_loop body xs s1 = Inr s'"
    by (auto split: sum.splits)
  from step [OF Cons.prems(1) s1] rest show ?case by (rule Cons.IH)
qed

text \<open>The same for a property that depends on the number of iterations done.\<close>

lemma for_loop_upt_invariant:
  assumes step: "\<And>j s s'. j < n \<Longrightarrow> R j s \<Longrightarrow> body j s = Inr s' \<Longrightarrow> R (Suc j) s'"
    and init: "R 0 s" and run: "for_loop body [0 ..< n] s = Inr s'"
  shows "R n s'"
  using step run
proof (induction n arbitrary: s')
  case 0
  with init show ?case by simp
next
  case (Suc n)
  from Suc.prems(2) obtain s1 where s1: "for_loop body [0 ..< n] s = Inr s1"
    and last: "body n s1 = Inr s'"
    by (auto simp: for_loop_append split: sum.splits)
  have "R n s1"
  proof (rule Suc.IH [OF _ s1])
    fix j s s' assume "j < n" "R j s" "body j s = Inr s'"
    then show "R (Suc j) s'" using Suc.prems(1) [of j s s'] by simp
  qed
  with last show ?case using Suc.prems(1) [of n s1 s'] by simp
qed

subsection \<open>The run configuration file\<close>

lemma read_mcp_training_config:
  "read_mcp (model_config_parameters a) = Inl (KeyError ''model_case'')"
  by (simp add: read_mcp_def model_config_parameters_def getitem_def)

subsection \<open>Micro-F1\<close>

lemma label_indices_eq:
  "list_index label_list ''no_relation'' = Inr 0"
  "remove1 0 [0 ..< length label_list] = [1 ..< 30]"
  by (simp_all add: label_list_def upt_conv_Cons)

lemma indicator_sum_distinct:
  "distinct cs \<Longrightarrow>
   sum_list (map (\<lambda>c. if f x = c \<and> Q x then 1 else 0) cs)
     = (if f x \<in> set cs \<and> Q x then 1 else (0::nat))"
  by (induction cs) auto

lemma sum_class_counts:
  assumes "distinct cs"
  shows "sum_list (map (\<lambda>c. length (filter (\<lambda>x. f x = c \<and> Q x) xs)) cs)
           = length (filter (\<lambda>x. f x \<in> set cs \<and> Q x) xs)"
proof (induction xs)
  case Nil
  show ?case by simp
next
  case (Cons x xs)
  have "sum_list (map (\<lambda>c. length (filter (\<lambda>x. f x = c \<and> Q x) (x # xs))) cs)
      = sum_list (map (\<lambda>c. if f x = c \<and> Q x then 1 else 0) cs)
        + sum_list (map (\<lambda>c. length (filter (\<lambda>x. f x = c \<and> Q x) xs)) cs)"
    by (induction cs) auto
  with Cons assms show ?case by (simp add: indicator_sum_distinct)
qed

lemma bincount_at_filter:
  assumes "distinct cs"
  shows "bincount_at xs cs = length (filter (\<lambda>x. x \<in> set cs) xs)"
proof -
  have "count_list xs = (\<lambda>c. length (filter (\<lambda>x. x = c \<and> True) xs))"
    by (simp add: fun_eq_iff count_list_eq_length_filter eq_commute)
  then show ?thesis
    unfolding bincount_at_def using sum_class_counts [OF assms, of "\<lambda>x. x" "\<lambda>x. True" xs]
    by simp
qed

lemma in_relation_classes: "c \<in> set relation_classes \<longleftrightarrow> is_relation c"
  by (auto simp: relation_classes_def is_relation_def)

lemma distinct_relation_classes: "distinct relation_classes"
  by (simp add: relation_classes_def)

lemma bincount_at_relations:
  "bincount_at xs relation_classes = length (filter is_relation xs)"
  by (simp add: bincount_at_filter [OF distinct_relation_classes] in_relation_classes)

text \<open>The pooled counts, as counts of examples.\<close>

lemma pooled_tp_eq:
  "sum_list (map (class_tp preds labels) relation_classes)
     = length (filter (\<lambda>(p, l). is_relation p \<and> l = p) (zip preds labels))"
proof -
  have "class_tp preds labels = (\<lambda>c. length (filter (\<lambda>x. fst x = c \<and> snd x = fst x) (zip preds labels)))"
    by (auto simp: class_tp_def fun_eq_iff intro!: arg_cong [where f = length] filter_cong)
  then show ?thesis
    using sum_class_counts [OF distinct_relation_classes, of fst "\<lambda>x. snd x = fst x" "zip preds labels"]
    by (simp add: in_relation_classes case_prod_unfold)
qed

lemma pooled_fp_eq:
  "sum_list (map (class_fp preds labels) relation_classes)
     = length (filter (\<lambda>(p, l). is_relation p \<and> l \<noteq> p) (zip preds labels))"
proof -
  have "class_fp preds labels = (\<lambda>c. length (filter (\<lambda>x. fst x = c \<and> snd x \<noteq> fst x) (zip preds labels)))"
    by (auto simp: class_fp_def fun_eq_iff intro!: arg_cong [where f = length] filter_cong)
  then show ?thesis
    using sum_class_counts [OF distinct_relation_classes, of fst "\<lambda>x. snd x \<noteq> fst x" "zip preds labels"]
    by (simp add: in_relation_classes case_prod_unfold)
qed

lemma pooled_fn_eq:
  "sum_list (map (class_fn preds labels) relation_classes)
     = length (filter (\<lambda>(p, l). is_relation l \<and> p \<noteq> l) (zip preds labels))"
proof -
  have "class_fn preds labels = (\<lambda>c. length (filter (\<lambda>x. snd x = c \<and> fst x \<noteq> snd x) (zip preds labels)))"
    by (auto simp: class_fn_def fun_eq_iff intro!: arg_cong [where f = length] filter_cong)
  then show ?thesis
    using sum_class_counts [OF distinct_relation_classes, of snd "\<lambda>x. fst x \<noteq> snd x" "zip preds labels"]
    by (simp add: in_relation_classes case_prod_unfold)
qed

text \<open>What the library counts, in terms of the pooled counts.\<close>

lemma library_counts:
  "length preds = length labels \<Longrightarrow>
   length (filter is_relation preds)
     = length (filter (\<lambda>(p, l). is_relation p \<and> l = p) (zip preds labels))
       + length (filter (\<lambda>(p, l). is_relation p \<and> l \<noteq> p) (zip preds labels)) \<and>
   length (filter is_relation labels)
     = length (filter (\<lambda>(p, l). is_relation p \<and> l = p) (zip preds labels))
       + length (filter (\<lambda>(p, l). is_relation l \<and> p \<noteq> l) (zip preds labels)) \<and>
   length (filter is_relation (map fst (filter (\<lambda>(t, p). t = p) (zip labels preds))))
     = length (filter (\<lambda>(p, l). is_relation p \<and> l = p) (zip preds labels))"
proof (induction preds labels rule: list_induct2)
  case Nil
  then show ?case by simp
next
  case (Cons p ps l ls)
  then show ?case by auto
qed

lemma f1_algebra:
  fixes tp fp fn :: real
  assumes "0 \<le> tp" "0 \<le> fp" "0 \<le> fn"
  shows "(let precision = prf_divide tp (tp + fp); recall = prf_divide tp (tp + fn);
              denom = precision + recall
          in if denom = 0 then 0 else 2 * precision * recall / denom)
       = (if 2 * tp + fp + fn = 0 then 0 else 2 * tp / (2 * tp + fp + fn))"
proof (cases "tp = 0")
  case True
  then show ?thesis by (simp add: prf_divide_def Let_def)
next
  case False
  define a where "a = tp + fp"
  define b where "b = tp + fn"
  from False assms have pos: "0 < tp" "0 < a" "0 < b"
    by (auto simp: a_def b_def)
  have ab: "2 * tp + fp + fn = a + b" by (simp add: a_def b_def)
  have p: "prf_divide tp a = tp / a" and r: "prf_divide tp b = tp / b"
    using pos by (simp_all add: prf_divide_def)
  have s: "tp / a + tp / b = tp * (a + b) / (a * b)"
    using pos by (simp add: field_simps)
  have spos: "0 < tp * (a + b) / (a * b)" using pos by simp
  have "2 * (tp / a) * (tp / b) / (tp * (a + b) / (a * b))
      = (2 * tp * tp * (a * b)) / (tp * (a + b) * (a * b))"
    by simp
  also have "\<dots> = (2 * tp) * (tp * (a * b)) / ((a + b) * (tp * (a * b)))"
    by (simp add: mult_ac)
  also have "\<dots> = 2 * tp / (a + b)"
    using pos by (subst mult_divide_mult_cancel_right) simp_all
  finally have "2 * (tp / a) * (tp / b) / (tp * (a + b) / (a * b)) = 2 * tp / (a + b)" .
  then show ?thesis
    unfolding Let_def a_def [symmetric] b_def [symmetric] ab p r s
    using spos pos by simp
qed

lemma f1_score_micro_relations:
  assumes len: "length preds = length labels"
  shows "f1_score_micro labels preds relation_classes = Inr (micro_f1_spec preds labels)"
proof -
  define TP where "TP = sum_list (map (class_tp preds labels) relation_classes)"
  define FP where "FP = sum_list (map (class_fp preds labels) relation_classes)"
  define FN where "FN = sum_list (map (class_fn preds labels) relation_classes)"
  note c = library_counts [OF len, folded pooled_tp_eq pooled_fp_eq pooled_fn_eq,
      folded TP_def FP_def FN_def]
  have tp: "bincount_at (map fst (filter (\<lambda>(t, p). t = p) (zip labels preds))) relation_classes = TP"
    using c by (simp only: bincount_at_relations)
  have ps: "bincount_at preds relation_classes = TP + FP"
    using c by (simp only: bincount_at_relations)
  have ts: "bincount_at labels relation_classes = TP + FN"
    using c by (simp only: bincount_at_relations)
  have "f1_score_micro labels preds relation_classes
      = Inr (let precision = prf_divide (real TP) (real TP + real FP);
                 recall = prf_divide (real TP) (real TP + real FN);
                 denom = precision + recall
             in if denom = 0 then 0 else 2 * precision * recall / denom)"
    unfolding f1_score_micro_def Let_def tp ps ts using len by simp
  also have "\<dots> = Inr (micro_f1_spec preds labels)"
    unfolding micro_f1_spec_def TP_def [symmetric] FP_def [symmetric] FN_def [symmetric]
    by (subst f1_algebra) (simp_all add: Let_def)
  finally show ?thesis .
qed

lemma klue_re_micro_f1_eq_spec:
  assumes len: "length preds = length labels"
  shows "klue_re_micro_f1 preds labels = Inr (100 * micro_f1_spec preds labels)"
proof -
  have "klue_re_micro_f1 preds labels =
          (case f1_score_micro labels preds relation_classes of
             Inl e \<Rightarrow> Inl e | Inr f \<Rightarrow> Inr (f * 100))"
    unfolding klue_re_micro_f1_def label_indices_eq(1) relation_classes_def
    by (simp only: sum.case Let_def label_indices_eq(2))
  then show ?thesis
    by (simp only: f1_score_micro_relations [OF len] sum.case mult.commute)
qed

lemma zip_scored_examples:
  "zip (map fst (scored_examples preds labels)) (map snd (scored_examples preds labels))
     = scored_examples preds labels"
  by (simp add: zip_map_fst_snd)

lemma filter_scored_examples:
  assumes "\<And>x. P x \<Longrightarrow> is_relation (fst x) \<or> is_relation (snd x)"
  shows "filter P (scored_examples preds labels) = filter P (zip preds labels)"
  unfolding scored_examples_def filter_filter
proof (rule filter_cong)
  fix x assume "x \<in> set (zip preds labels)"
  show "((case x of (p, l) \<Rightarrow> is_relation p \<or> is_relation l) \<and> P x) = P x"
    using assms [of x] by (cases x) auto
qed simp

lemma micro_f1_spec_scored_examples:
  "micro_f1_spec (map fst (scored_examples preds labels)) (map snd (scored_examples preds labels))
     = micro_f1_spec preds labels"
proof -
  have "filter (\<lambda>x. is_relation (fst x) \<and> snd x = fst x) (scored_examples preds labels)
          = filter (\<lambda>x. is_relation (fst x) \<and> snd x = fst x) (zip preds labels)"
       "filter (\<lambda>x. is_relation (fst x) \<and> snd x \<noteq> fst x) (scored_examples preds labels)
          = filter (\<lambda>x. is_relation (fst x) \<and> snd x \<noteq> fst x) (zip preds labels)"
       "filter (\<lambda>x. is_relation (snd x) \<and> fst x \<noteq> snd x) (scored_examples preds labels)
          = filter (\<lambda>x. is_relation (snd x) \<and> fst x \<noteq> snd x) (zip preds labels)"
    by (rule filter_scored_examples; simp)+
  then show ?thesis
    unfolding micro_f1_spec_def pooled_tp_eq pooled_fp_eq pooled_fn_eq zip_scored_examples
    by (simp add: case_prod_unfold)
qed

text \<open>
  C5. For prediction and label vectors of the same length (of different lengths the
  library raises), \<open>klue_re_micro_f1\<close> returns 100 times the F1 of the true positives,
  false positives and false negatives pooled over the classes 1 to 29. Class 0,
  \<open>no_relation\<close>, has no count of its own in the pool, and the examples on which neither
  the prediction nor the label is a relation class can be deleted without changing the
  score: a \<open>no_relation\<close> prediction or label is only ever counted through the relation
  class on the other side of its example.
\<close>

theorem klue_re_micro_f1_pooled:
  assumes "length preds = length labels"
  shows "klue_re_micro_f1 preds labels = Inr (100 * micro_f1_spec preds labels)
       \<and> klue_re_micro_f1 (map fst (scored_examples preds labels))
            (map snd (scored_examples preds labels)) = klue_re_micro_f1 preds labels"
  using assms
  by (simp add: klue_re_micro_f1_eq_spec micro_f1_spec_scored_examples)

text \<open>
  Four examples, the third one \<open>no_relation\<close> on both sides: two true positives, one
  false positive and one false negative give 100 * 4 / 6.
\<close>

theorem klue_re_micro_f1_pooled_witness:
  "length [1, 2, 0, 2 :: nat] = length [1, 1, 0, 2 :: nat]
   \<and> klue_re_micro_f1 [1, 2, 0, 2] [1, 1, 0, 2] = Inr (200 / 3)
   \<and> klue_re_micro_f1 [1, 2, 2] [1, 1, 2] = Inr (200 / 3)"
  using klue_re_micro_f1_pooled [of "[1, 2, 0, 2]" "[1, 1, 0, 2]"]
  by (simp add: micro_f1_spec_def pooled_tp_eq pooled_fp_eq pooled_fn_eq
      scored_examples_def is_relation_def)

subsection \<open>Batches\<close>

lemma batches_Nil [simp]: "batches n [] = []"
  by (simp add: batches.simps)

lemma batches_rec:
  "0 < n \<Longrightarrow> xs \<noteq> [] \<Longrightarrow> batches n xs = take n xs # batches n (drop n xs)"
  by (subst batches.simps) simp

lemma batches_eq_Nil: "batches n xs = [] \<longleftrightarrow> n = 0 \<or> xs = []"
  by (subst batches.simps) simp

lemma concat_batches: "0 < n \<Longrightarrow> concat (batches n xs) = xs"
proof (induction n xs rule: batches.induct)
  case (1 n xs)
  show ?case
  proof (cases "xs = []")
    case True
    then show ?thesis by simp
  next
    case False
    with 1 show ?thesis by (simp add: batches_rec)
  qed
qed

lemma batches_nonempty: "b \<in> set (batches n xs) \<Longrightarrow> b \<noteq> []"
proof (induction n xs rule: batches.induct)
  case (1 n xs)
  show ?case
  proof (cases "n = 0 \<or> xs = []")
    case True
    with 1(2) show ?thesis by (auto simp: batches.simps [of n xs])
  next
    case False
    with 1 show ?thesis by (auto simp: batches_rec)
  qed
qed

text \<open>Example \<open>i\<close> of the dataset sits at position \<open>i mod n\<close> of batch \<open>i div n\<close>.\<close>

lemma batches_nth:
  "0 < n \<Longrightarrow> i < length xs \<Longrightarrow>
   i div n < length (batches n xs) \<and>
   i mod n < length (batches n xs ! (i div n)) \<and>
   batches n xs ! (i div n) ! (i mod n) = xs ! i"
proof (induction n xs arbitrary: i rule: batches.induct)
  case (1 n xs)
  from 1(3) have ne: "xs \<noteq> []" by auto
  have rec: "batches n xs = take n xs # batches n (drop n xs)"
    using 1(2) ne by (rule batches_rec)
  show ?case
  proof (cases "i < n")
    case True
    then show ?thesis using 1(2,3) by (simp add: rec)
  next
    case False
    then have ge: "n \<le> i" by simp
    then have d: "i div n = Suc ((i - n) div n)" and m: "i mod n = (i - n) mod n"
      using 1(2) by (simp_all add: le_div_geq le_mod_geq)
    have "i - n < length (drop n xs)" using 1(3) ge by simp
    from 1(1) [OF _ 1(2) this] 1(2) ne
    have "(i - n) div n < length (batches n (drop n xs)) \<and>
          (i - n) mod n < length (batches n (drop n xs) ! ((i - n) div n)) \<and>
          batches n (drop n xs) ! ((i - n) div n) ! ((i - n) mod n) = drop n xs ! (i - n)"
      by simp
    then show ?thesis using ge 1(3) by (simp add: rec d m)
  qed
qed

subsection \<open>One fold's inference\<close>

lemma foldl_append_map: "foldl (\<lambda>acc d. acc @ [f d]) acc ds = acc @ map f ds"
  by (induction ds arbitrary: acc) auto

lemma inference_unfold:
  "inference model ds mt bs =
     (if bs \<le> 0 then Inl ValueError
      else torch_cat (map (model (\<not> sublist ''xlm'' mt)) (batches (nat bs) ds)))"
  by (simp add: inference_def data_loader_def foldl_append_map)

lemma well_shaped_n_cols:
  "well_shaped c model \<Longrightarrow> b \<noteq> [] \<Longrightarrow> n_cols (model flag b) = c"
proof -
  assume ws: "well_shaped c model" and ne: "b \<noteq> []"
  from ws have len: "length (model flag b) = length b"
    and rows: "list_all (\<lambda>row. length row = c) (model flag b)"
    by (simp_all add: well_shaped_def)
  from len ne obtain r rs where "model flag b = r # rs" by (cases "model flag b") auto
  with rows show ?thesis by (simp add: n_cols_def)
qed

lemma inference_well_shaped:
  assumes ws: "well_shaped c model" and bs: "0 < bs" and ne: "ds \<noteq> []"
  shows "inference model ds mt bs = Inr (raw_logits model ds mt bs)"
proof -
  let ?f = "model (\<not> sublist ''xlm'' mt)"
  let ?bs = "batches (nat bs) ds"
  have nonempty: "?bs \<noteq> []" using bs ne by (simp add: batches_eq_Nil)
  have "\<And>b. b \<in> set ?bs \<Longrightarrow> n_cols (?f b) = c"
    by (rule well_shaped_n_cols [OF ws]) (rule batches_nonempty)
  then have "list_all (\<lambda>t. n_cols t = n_cols (hd (map ?f ?bs))) (map ?f ?bs)"
    using nonempty by (cases ?bs) (auto simp: list_all_iff)
  then show ?thesis
    using bs nonempty by (simp add: inference_unfold torch_cat_def raw_logits_def)
qed

lemma inference_empty_dataset: "inference model [] mt bs = Inl (if bs \<le> 0 then ValueError else RuntimeError)"
  by (simp add: inference_unfold torch_cat_def)

lemma length_concat_map_same:
  "(\<And>b. length (f b) = length b) \<Longrightarrow> length (concat (map f bs)) = length (concat bs)"
  by (induction bs) auto

lemma raw_logits_shape:
  assumes ws: "well_shaped c model" and bs: "0 < bs"
  shows "length (raw_logits model ds mt bs) = length ds"
    and "list_all (\<lambda>row. length row = c) (raw_logits model ds mt bs)"
proof -
  let ?f = "model (\<not> sublist ''xlm'' mt)"
  have "length (concat (map ?f (batches (nat bs) ds))) = length (concat (batches (nat bs) ds))"
    using ws by (intro length_concat_map_same) (simp add: well_shaped_def)
  then show "length (raw_logits model ds mt bs) = length ds"
    using bs by (simp add: raw_logits_def concat_batches)
  show "list_all (\<lambda>row. length row = c) (raw_logits model ds mt bs)"
    using ws by (auto simp: raw_logits_def list_all_iff well_shaped_def)
qed

text \<open>Row \<open>i\<close> of a fold's logits is row \<open>i mod n\<close> of the logits of batch \<open>i div n\<close>.\<close>

lemma concat_map_nth:
  assumes len: "\<And>b. length (f b) = length b"
    and n: "0 < n" and i: "i < length xs"
  shows "concat (map f (batches n xs)) ! i = f (batches n xs ! (i div n)) ! (i mod n)"
  using n i
proof (induction n xs arbitrary: i rule: batches.induct)
  case (1 n xs)
  from 1(3) have ne: "xs \<noteq> []" by auto
  have rec: "batches n xs = take n xs # batches n (drop n xs)"
    using 1(2) ne by (rule batches_rec)
  show ?case
  proof (cases "i < n")
    case True
    then have "i < length (f (take n xs))" using 1(3) by (simp add: len)
    then show ?thesis using True by (simp add: rec nth_append)
  next
    case False
    then have ge: "n \<le> i" by simp
    then have d: "i div n = Suc ((i - n) div n)" and m: "i mod n = (i - n) mod n"
      using 1(2) by (simp_all add: le_div_geq le_mod_geq)
    have l: "length (f (take n xs)) = n" using ge 1(3) by (simp add: len)
    have "i - n < length (drop n xs)" using 1(3) ge by simp
    from 1(1) [OF _ 1(2) this] 1(2) ne
    have "concat (map f (batches n (drop n xs))) ! (i - n)
            = f (batches n (drop n xs) ! ((i - n) div n)) ! ((i - n) mod n)"
      by simp
    then show ?thesis using ge by (simp add: rec d m nth_append l)
  qed
qed

subsection \<open>Tensors\<close>

lemma tensor_of_nth: "i < r \<Longrightarrow> j < c \<Longrightarrow> tensor_of r c g ! i ! j = g i j"
  by (simp add: tensor_of_def)

lemma length_tensor_of [simp]: "length (tensor_of r c g) = r"
  by (simp add: tensor_of_def)

lemma tensor_of_row: "i < r \<Longrightarrow> tensor_of r c g ! i = map (g i) [0 ..< c]"
  by (simp add: tensor_of_def)

lemma n_cols_tensor_of: "0 < r \<Longrightarrow> n_cols (tensor_of r c g) = c"
  by (simp add: tensor_of_def n_cols_def upt_conv_Cons split: list.splits)

lemma tensor_of_cong:
  "(\<And>i j. i < r \<Longrightarrow> j < c \<Longrightarrow> g i j = h i j) \<Longrightarrow> tensor_of r c g = tensor_of r c h"
  by (simp add: tensor_of_def)

lemma zeros_tensor_of: "zeros r c = tensor_of r c (\<lambda>i j. 0)"
  by (simp add: zeros_def tensor_of_def map_replicate_const)

lemma has_shape_n_cols: "has_shape t r c \<Longrightarrow> 0 < r \<Longrightarrow> n_cols t = c"
  by (cases t) (auto simp: has_shape_def n_cols_def)

text \<open>Adding a tensor of \<open>n\<close> rows and 30 columns to an accumulator of 7765 rows and 30 columns.\<close>

lemma iadd_accumulator:
  assumes other: "has_shape other n 30" and n: "0 < n"
  shows "iadd (tensor_of 7765 30 g) other =
           (if n = 7765 \<or> n = 1
            then Inr (tensor_of 7765 30 (\<lambda>i j. g i j + other ! (if n = 1 then 0 else i) ! j))
            else Inl RuntimeError)"
proof -
  have c: "n_cols other = 30" using other n by (rule has_shape_n_cols)
  have r: "length other = n" using other by (simp add: has_shape_def)
  have C: "n_cols (tensor_of 7765 30 g) = 30" by (simp add: n_cols_tensor_of)
  show ?thesis
    unfolding iadd_def Let_def c r C length_tensor_of
    by (auto intro!: tensor_of_cong simp: tensor_of_nth)
qed

subsection \<open>The accumulation loop\<close>

lemma raw_logits_has_shape:
  "well_shaped c model \<Longrightarrow> 0 < bs \<Longrightarrow> has_shape (raw_logits model ds mt bs) (length ds) c"
  by (simp add: has_shape_def raw_logits_shape)

lemma accumulate_step:
  assumes ws: "well_shaped 30 model" and bs: "0 < bs"
  shows "(case inference model ds mt bs of Inl e \<Rightarrow> Inl e
          | Inr prob_answer \<Rightarrow> iadd (tensor_of 7765 30 g) prob_answer)
       = (if length ds = 7765 \<or> length ds = 1
          then Inr (tensor_of 7765 30
                 (\<lambda>i j. g i j + raw_logits model ds mt bs ! (if length ds = 1 then 0 else i) ! j))
          else Inl RuntimeError)"
proof (cases "ds = []")
  case True
  then show ?thesis using bs by (simp add: inference_empty_dataset)
next
  case False
  then have n: "0 < length ds" by simp
  show ?thesis
    using iadd_accumulator [OF raw_logits_has_shape [OF ws bs, of ds mt] n, of g]
    by (simp add: inference_well_shaped [OF ws bs False])
qed

lemma accumulate_loop_ok:
  assumes ws: "\<And>f. well_shaped 30 (models f)" and bs: "0 < bs"
    and n: "length ds = 7765 \<or> length ds = 1"
  shows "for_loop
           (\<lambda>kfold_idx probs.
              (case inference (models kfold_idx) ds mt bs of
                 Inl e \<Rightarrow> Inl e
               | Inr prob_answer \<Rightarrow> iadd probs prob_answer))
           fs (tensor_of 7765 30 g)
         = Inr (tensor_of 7765 30
             (\<lambda>i j. g i j + sum_list (map (\<lambda>f. raw_logits (models f) ds mt bs
                                                    ! (if length ds = 1 then 0 else i) ! j) fs)))"
proof (induction fs arbitrary: g)
  case Nil
  show ?case by simp
next
  case (Cons f fs)
  show ?case
    using n by (simp add: accumulate_step [OF ws bs] Cons.IH add.assoc)
qed

lemma accumulate_loop_fails:
  assumes ws: "\<And>f. well_shaped 30 (models f)" and bs: "0 < bs"
    and n: "\<not> (length ds = 7765 \<or> length ds = 1)"
  shows "for_loop
           (\<lambda>kfold_idx probs.
              (case inference (models kfold_idx) ds mt bs of
                 Inl e \<Rightarrow> Inl e
               | Inr prob_answer \<Rightarrow> iadd probs prob_answer))
           (f # fs) (tensor_of 7765 30 g)
         = Inl RuntimeError"
  using n by (simp add: accumulate_step [OF ws bs])

lemma accumulate_logits_eq:
  assumes ws: "\<And>f. well_shaped 30 (models f)" and bs: "0 < bs" and k: "0 < k"
  shows "accumulate_logits models ds mt bs k =
           (if length ds = 7765 \<or> length ds = 1
            then Inr (tensor_of 7765 30
                   (\<lambda>i j. sum_list (map (\<lambda>L. L ! (if length ds = 1 then 0 else i) ! j)
                                       (fold_logits models ds mt bs k))))
            else Inl RuntimeError)"
proof (cases "length ds = 7765 \<or> length ds = 1")
  case True
  show ?thesis
    unfolding accumulate_logits_def zeros_tensor_of
    using True
    by (simp add: accumulate_loop_ok [OF ws bs True] fold_logits_def comp_def)
next
  case False
  from k obtain f fs where "[0 ..< nat k] = f # fs"
    by (cases "[0 ..< nat k]") auto
  then show ?thesis
    unfolding accumulate_logits_def zeros_tensor_of
    using False accumulate_loop_fails [OF ws bs False, where f = f and fs = fs and mt = mt
        and g = "\<lambda>i j. 0"]
    by simp
qed

lemma accumulate_logits_bad_batch_size:
  "bs \<le> 0 \<Longrightarrow> 0 < k \<Longrightarrow> accumulate_logits models ds mt bs k = Inl ValueError"
proof -
  assume bs: "bs \<le> 0" and k: "0 < k"
  from k obtain f fs where "[0 ..< nat k] = f # fs"
    by (cases "[0 ..< nat k]") auto
  then show ?thesis
    unfolding accumulate_logits_def using bs by (simp add: inference_unfold)
qed

subsection \<open>Softmax and argmax\<close>

lemma length_softmax [simp]: "length (softmax xs) = length xs"
  by (simp add: softmax_def)

lemma sum_list_divide: "sum_list (map (\<lambda>x. f x / c) xs) = sum_list (map f xs) / (c::real)"
  by (induction xs) (simp_all add: add_divide_distrib)

lemma sum_list_exp_pos: "xs \<noteq> [] \<Longrightarrow> 0 < sum_list (map exp (xs :: real list))"
proof (induction xs)
  case Nil
  then show ?case by simp
next
  case (Cons x xs)
  have "0 < exp x" by simp
  moreover have "0 \<le> sum_list (map exp xs)" by (rule sum_list_nonneg) auto
  ultimately have "0 < exp x + sum_list (map exp xs)" by (rule add_pos_nonneg)
  then show ?case by simp
qed

lemma sum_list_softmax: "xs \<noteq> [] \<Longrightarrow> sum_list (softmax xs) = 1"
  using sum_list_exp_pos [of xs] by (simp add: softmax_def sum_list_divide)

lemma argmax_from_spec:
  assumes "bi < length pre" "bv = pre ! bi"
    and "\<forall>j < length pre. pre ! j \<le> bv" and "\<forall>j < bi. pre ! j < bv"
  shows "is_argmax (pre @ xs) (argmax_from bi bv (length pre) xs)"
  using assms
proof (induction xs arbitrary: pre bi bv)
  case Nil
  then show ?case by (simp add: is_argmax_def)
next
  case (Cons x xs)
  show ?case
  proof (cases "bv < x")
    case True
    have "is_argmax ((pre @ [x]) @ xs) (argmax_from (length pre) x (length (pre @ [x])) xs)"
    proof (rule Cons.IH)
      show "\<forall>j < length (pre @ [x]). (pre @ [x]) ! j \<le> x"
      proof (intro allI impI)
        fix j assume "j < length (pre @ [x])"
        then consider "j < length pre" | "j = length pre" by fastforce
        then show "(pre @ [x]) ! j \<le> x"
        proof cases
          case 1
          with Cons.prems(3) have "pre ! j \<le> bv" by simp
          with True 1 show ?thesis by (simp add: nth_append)
        next
          case 2
          then show ?thesis by simp
        qed
      qed
      show "\<forall>j < length pre. (pre @ [x]) ! j < x"
      proof (intro allI impI)
        fix j assume j: "j < length pre"
        with Cons.prems(3) have "pre ! j \<le> bv" by simp
        with True j show "(pre @ [x]) ! j < x" by (simp add: nth_append)
      qed
    qed simp_all
    with True show ?thesis by simp
  next
    case False
    have "is_argmax ((pre @ [x]) @ xs) (argmax_from bi bv (length (pre @ [x])) xs)"
    proof (rule Cons.IH)
      show "bi < length (pre @ [x])" using Cons.prems(1) by simp
      show "bv = (pre @ [x]) ! bi" using Cons.prems(1,2) by (simp add: nth_append)
      show "\<forall>j < length (pre @ [x]). (pre @ [x]) ! j \<le> bv"
        using Cons.prems(3) False by (auto simp: nth_append less_Suc_eq)
      show "\<forall>j < bi. (pre @ [x]) ! j < bv"
        using Cons.prems(1,4) by (auto simp: nth_append)
    qed
    with False show ?thesis by simp
  qed
qed

lemma argmax_is_argmax: "argmax xs = Inr p \<Longrightarrow> is_argmax xs p"
proof (cases xs)
  case Nil
  assume "argmax xs = Inr p"
  with Nil show ?thesis by (simp add: argmax_def)
next
  case (Cons x rest)
  assume "argmax xs = Inr p"
  with Cons have p: "p = argmax_from 0 x (length [x]) rest" by (simp add: argmax_def)
  have "is_argmax ([x] @ rest) (argmax_from 0 x (length [x]) rest)"
    by (rule argmax_from_spec) simp_all
  with p Cons show ?thesis by simp
qed

lemma argmax_total: "xs \<noteq> [] \<Longrightarrow> \<exists>p. argmax xs = Inr p"
  by (cases xs) (simp_all add: argmax_def)

lemma argmax_rows_Inr:
  "argmax_rows rs = Inr ps \<Longrightarrow>
   length ps = length rs \<and> (\<forall>i < length rs. argmax (rs ! i) = Inr (ps ! i))"
proof (induction rs arbitrary: ps)
  case Nil
  then show ?case by simp
next
  case (Cons r rs)
  from Cons.prems obtain p ps' where p: "argmax r = Inr p"
    and ps': "argmax_rows rs = Inr ps'" and eq: "ps = p # ps'"
    by (auto split: sum.splits)
  from Cons.IH [OF ps'] p eq show ?case by (auto simp: nth_Cons split: nat.splits)
qed

lemma argmax_rows_total:
  "list_all (\<lambda>r. r \<noteq> []) rs \<Longrightarrow> \<exists>ps. argmax_rows rs = Inr ps"
proof (induction rs)
  case Nil
  then show ?case by simp
next
  case (Cons r rs)
  then obtain p ps where "argmax r = Inr p" "argmax_rows rs = Inr ps"
    using argmax_total [of r] by auto
  then show ?case by simp
qed

lemma num_to_label_Inr:
  "num_to_label d ps = Inr ls \<Longrightarrow>
   length ls = length ps \<and> (\<forall>i < length ps. d (ps ! i) = Some (ls ! i))"
proof (induction ps arbitrary: ls)
  case Nil
  then show ?case by simp
next
  case (Cons p ps)
  from Cons.prems obtain l ls' where l: "d p = Some l"
    and ls': "num_to_label d ps = Inr ls'" and eq: "ls = l # ls'"
    by (auto split: option.splits sum.splits)
  from Cons.IH [OF ls'] l eq show ?case by (auto simp: nth_Cons split: nat.splits)
qed

lemma num_to_label_total:
  "list_all (\<lambda>p. d p \<noteq> None) ps \<Longrightarrow> \<exists>ls. num_to_label d ps = Inr ls"
proof (induction ps)
  case Nil
  then show ?case by simp
next
  case (Cons p ps)
  then obtain l ls where "d p = Some l" "num_to_label d ps = Inr ls" by auto
  then show ?case by simp
qed

lemma data_frame_Inr:
  "data_frame ids ls ps = Inr out \<Longrightarrow>
   length ls = length ids \<and> length ps = length ids \<and> length out = length ids \<and>
   (\<forall>i < length ids.
      out ! i = \<lparr>id_col = ids ! i, pred_label_col = ls ! i, probs_col = ps ! i\<rparr>)"
  by (auto simp: data_frame_def split: if_splits)

subsection \<open>The whole inference run\<close>

lemma div_scalar_tensor_of:
  "div_scalar (tensor_of r c g) k = tensor_of r c (\<lambda>i j. g i j / real_of_int k)"
  by (simp add: div_scalar_def tensor_of_def comp_def)

lemma mean_logits_tensor_row:
  assumes k: "0 < k" and i: "i < 7765"
  shows "tensor_of 7765 30
           (\<lambda>i j. sum_list (map (\<lambda>L. L ! i ! j) (fold_logits models ds mt bs k)) / real_of_int k) ! i
         = mean_logits (fold_logits models ds mt bs k) i"
proof -
  have "real (length (fold_logits models ds mt bs k)) = real_of_int k"
    using k by (simp add: fold_logits_def)
  then show ?thesis using i by (simp add: tensor_of_row mean_logits_def)
qed

lemma length_mean_logits [simp]: "length (mean_logits Ls i) = 30"
  by (simp add: mean_logits_def)

lemma main_Inr:
  assumes run: "main d models mt k bs data_idx rows = Inr out"
    and ws: "\<And>f. well_shaped 30 (models f)" and k: "0 < k"
  shows "0 < bs \<and> length rows = 7765 \<and> length out = length rows \<and>
         (\<forall>i < length rows. \<exists>p.
            argmax (softmax (mean_logits (fold_logits models (map snd rows) mt bs k) i)) = Inr p \<and>
            d p = Some (pred_label_col (out ! i)) \<and>
            id_col (out ! i) = fst (rows ! i) \<and>
            probs_col (out ! i)
              = softmax (mean_logits (fold_logits models (map snd rows) mt bs k) i))"
proof -
  let ?ds = "map snd rows"
  let ?Ls = "fold_logits models ?ds mt bs k"
  from run obtain summed preds pred_answer where
    acc: "accumulate_logits models ?ds mt bs k = Inr summed"
    and am: "argmax_rows (map softmax (div_scalar summed k)) = Inr preds"
    and nl: "num_to_label d preds = Inr pred_answer"
    and df: "data_frame (map fst rows) pred_answer (map softmax (div_scalar summed k)) = Inr out"
    by (auto simp: main_def Let_def split: if_splits sum.splits)
  have bs: "0 < bs"
  proof (rule ccontr)
    assume "\<not> 0 < bs"
    then have "accumulate_logits models ?ds mt bs k = Inl ValueError"
      using k by (intro accumulate_logits_bad_batch_size) simp_all
    with acc show False by simp
  qed
  note eq = accumulate_logits_eq [OF ws bs k, where ds = ?ds and mt = mt]
  from acc eq have n: "length ?ds = 7765 \<or> length ?ds = 1"
    by (auto split: if_splits)
  with acc eq have summed:
    "summed = tensor_of 7765 30
       (\<lambda>i j. sum_list (map (\<lambda>L. L ! (if length ?ds = 1 then 0 else i) ! j) ?Ls))"
    by simp
  then have len: "length (map softmax (div_scalar summed k)) = 7765"
    by (simp add: div_scalar_tensor_of)
  from data_frame_Inr [OF df] have
    l1: "length pred_answer = length rows"
    and l2: "length (map softmax (div_scalar summed k)) = length rows"
    and l3: "length out = length rows"
    and row: "\<And>i. i < length rows \<Longrightarrow>
       out ! i = \<lparr>id_col = map fst rows ! i, pred_label_col = pred_answer ! i,
                  probs_col = map softmax (div_scalar summed k) ! i\<rparr>"
    by simp_all
  from len l2 have rows: "length rows = 7765" by simp
  then have summed': "summed = tensor_of 7765 30 (\<lambda>i j. sum_list (map (\<lambda>L. L ! i ! j) ?Ls))"
    using summed by simp
  have prob: "map softmax (div_scalar summed k) ! i = softmax (mean_logits ?Ls i)"
    if "i < length rows" for i
    using that rows k
    by (simp add: summed' div_scalar_tensor_of mean_logits_tensor_row)
  from argmax_rows_Inr [OF am] have
    p1: "length preds = length rows"
    and p2: "\<And>i. i < length rows \<Longrightarrow>
        argmax (map softmax (div_scalar summed k) ! i) = Inr (preds ! i)"
    using l2 by simp_all
  from num_to_label_Inr [OF nl] p1 have
    q: "\<And>i. i < length rows \<Longrightarrow> d (preds ! i) = Some (pred_answer ! i)"
    by simp
  have "\<exists>p. argmax (softmax (mean_logits ?Ls i)) = Inr p \<and>
            d p = Some (pred_label_col (out ! i)) \<and>
            id_col (out ! i) = fst (rows ! i) \<and>
            probs_col (out ! i) = softmax (mean_logits ?Ls i)"
    if i: "i < length rows" for i
  proof (intro exI conjI)
    show "argmax (softmax (mean_logits ?Ls i)) = Inr (preds ! i)"
      using p2 [OF i] prob [OF i] by simp
    show "d (preds ! i) = Some (pred_label_col (out ! i))"
      using q [OF i] row [OF i] by simp
    show "id_col (out ! i) = fst (rows ! i)" using row [OF i] i by simp
    show "probs_col (out ! i) = softmax (mean_logits ?Ls i)"
      using row [OF i] prob [OF i] by simp
  qed
  with bs rows l3 show ?thesis by blast
qed

text \<open>The run succeeds on a test frame of 7765 rows.\<close>

lemma main_succeeds:
  assumes ws: "\<And>f. well_shaped 30 (models f)" and k: "0 < k" and bs: "0 < bs"
    and rows: "length rows = 7765" and idx: "data_idx < 7765"
    and dict: "\<And>p. p < 30 \<Longrightarrow> d p \<noteq> None"
  shows "\<exists>out. main d models mt k bs data_idx rows = Inr out"
proof -
  let ?ds = "map snd rows"
  let ?Ls = "fold_logits models ?ds mt bs k"
  define summed where
    "summed = tensor_of 7765 30 (\<lambda>i j. sum_list (map (\<lambda>L. L ! i ! j) ?Ls))"
  have acc: "accumulate_logits models ?ds mt bs k = Inr summed"
    using rows by (simp add: accumulate_logits_eq [OF ws bs k] summed_def)
  let ?P = "map softmax (div_scalar summed k)"
  have len: "length ?P = 7765" by (simp add: summed_def div_scalar_tensor_of)
  have row: "?P ! i = softmax (mean_logits ?Ls i)" if "i < 7765" for i
    using that k by (simp add: summed_def div_scalar_tensor_of mean_logits_tensor_row)
  have "list_all (\<lambda>r. r \<noteq> []) ?P"
    unfolding list_all_length
  proof (intro allI impI)
    fix i assume "i < length ?P"
    with len have i: "i < 7765" by simp
    have "length (?P ! i) = 30" by (simp only: row [OF i] length_softmax length_mean_logits)
    then show "?P ! i \<noteq> []" by auto
  qed
  from argmax_rows_total [OF this] obtain preds where am: "argmax_rows ?P = Inr preds" ..
  have "list_all (\<lambda>p. d p \<noteq> None) preds"
    unfolding list_all_length
  proof (intro allI impI)
    fix i assume "i < length preds"
    with argmax_rows_Inr [OF am] len have i: "i < 7765"
      and a: "argmax (?P ! i) = Inr (preds ! i)" by simp_all
    from argmax_is_argmax [OF a] have "preds ! i < length (?P ! i)"
      by (simp add: is_argmax_def)
    also have "length (?P ! i) = 30"
      by (simp only: row [OF i] length_softmax length_mean_logits)
    finally show "d (preds ! i) \<noteq> None" by (rule dict)
  qed
  from num_to_label_total [OF this] obtain ls where nl: "num_to_label d preds = Inr ls" ..
  have "length ls = length rows"
    using num_to_label_Inr [OF nl] argmax_rows_Inr [OF am] len rows by simp
  then have "\<exists>out. data_frame (map fst rows) ls ?P = Inr out"
    using len rows by (simp add: data_frame_def)
  then show ?thesis
    using acc am nl rows idx by (simp add: main_def Let_def)
qed

subsection \<open>The small instance\<close>

lemma zero_models_well_shaped: "well_shaped 30 (zero_models f)"
  by (simp add: well_shaped_def zero_models_def zero_classifier_def list_all_iff)

lemma example_dict_total: "p < 30 \<Longrightarrow> example_dict p \<noteq> None"
proof -
  assume "p < 30"
  then have "p \<in> set [0 ..< 30]" by simp
  moreover have "length [0 ..< 30] = length label_list" by (simp add: label_list_def)
  ultimately have "\<exists>y. map_of (zip [0 ..< 30] label_list) p = Some y"
    by (simp only: map_of_zip_is_Some)
  then show ?thesis by (auto simp: example_dict_def)
qed

lemma length_example_rows: "length example_rows = 7765"
  by (simp add: example_rows_def)

lemma raw_logits_zero:
  "0 < bs \<Longrightarrow> raw_logits zero_classifier ds mt bs = map (\<lambda>e. replicate 30 0) ds"
proof -
  assume bs: "0 < bs"
  have "raw_logits zero_classifier ds mt bs
        = concat (map (map (\<lambda>e. replicate 30 0)) (batches (nat bs) ds))"
    by (simp add: raw_logits_def zero_classifier_def [abs_def])
  also have "\<dots> = map (\<lambda>e. replicate 30 0) (concat (batches (nat bs) ds))"
    by (simp only: map_concat)
  finally show ?thesis using bs by (simp add: concat_batches)
qed

lemma example_run:
  "\<exists>out. main example_dict zero_models ''klue/roberta-large'' 5 62 0 example_rows = Inr out"
  by (rule main_succeeds)
    (simp_all add: zero_models_well_shaped example_dict_total length_example_rows)

subsection \<open>The claims about inference\<close>

text \<open>
  C2. In every inference run that writes its table, with at least one fold and
  classifiers of 30 classes, the probability vector of test example \<open>i\<close> is the softmax,
  applied once, of the arithmetic mean over the folds of the raw logits of example \<open>i\<close>;
  the predicted label is the label of the argmax of that vector (its first largest
  entry); and the entries of the vector sum to 1. Floats are modelled by real numbers, on
  which the sum is exactly 1.
\<close>

theorem ensemble_is_softmax_of_mean_logits:
  assumes "main d models mt k bs data_idx rows = Inr out"
    and "\<forall>f. well_shaped 30 (models f)" and "0 < k" and "i < length rows"
  shows "probs_col (out ! i) = softmax (mean_logits (fold_logits models (map snd rows) mt bs k) i)
       \<and> (\<exists>p. is_argmax (probs_col (out ! i)) p \<and> d p = Some (pred_label_col (out ! i)))
       \<and> sum_list (probs_col (out ! i)) = 1"
proof -
  from assms(2) have ws: "\<And>f. well_shaped 30 (models f)" by simp
  from main_Inr [where models = models, OF assms(1) ws assms(3)] assms(4)
  obtain p where p: "argmax (softmax (mean_logits (fold_logits models (map snd rows) mt bs k) i)) = Inr p"
    and l: "d p = Some (pred_label_col (out ! i))"
    and pr: "probs_col (out ! i) = softmax (mean_logits (fold_logits models (map snd rows) mt bs k) i)"
    by blast
  have "mean_logits (fold_logits models (map snd rows) mt bs k) i \<noteq> []"
    by (simp add: mean_logits_def)
  then have "sum_list (probs_col (out ! i)) = 1"
    unfolding pr by (rule sum_list_softmax)
  moreover have "is_argmax (probs_col (out ! i)) p"
    unfolding pr using p by (rule argmax_is_argmax)
  ultimately show ?thesis using pr l by blast
qed

theorem ensemble_is_softmax_of_mean_logits_witness:
  "\<exists>out. main example_dict zero_models ''klue/roberta-large'' 5 62 0 example_rows = Inr out
     \<and> (0::int) < 5 \<and> (0::nat) < length example_rows
     \<and> probs_col (out ! 0)
         = softmax (mean_logits
             (fold_logits zero_models (map snd example_rows) ''klue/roberta-large'' 62 5) 0)
     \<and> sum_list (probs_col (out ! 0)) = 1"
proof -
  from example_run obtain out where
    run: "main example_dict zero_models ''klue/roberta-large'' 5 62 0 example_rows = Inr out" ..
  have ws: "\<forall>f. well_shaped 30 (zero_models f :: unit classifier)"
    by (simp add: zero_models_well_shaped)
  have i: "0 < length example_rows" by (simp add: length_example_rows)
  from ensemble_is_softmax_of_mean_logits [OF run ws _ i] run i show ?thesis by auto
qed

text \<open>
  C3, as the code has it. The accumulator has 7765 rows whatever the test set is. With
  at least one fold, classifiers of 30 classes and a positive batch size, the
  accumulation loop succeeds when the test set has 7765 rows, and also when it has
  exactly one row, whose logits the in-place addition broadcasts to all 7765 rows of the
  accumulator; for every other size (the empty test set included) it raises. The run as
  a whole writes its table only for a test set of 7765 rows.
\<close>

theorem accumulate_logits_row_count:
  assumes "\<forall>f. well_shaped 30 (models f)" and "0 < bs" and "0 < k"
  shows "accumulate_logits models ds mt bs k =
           (if length ds = 7765 \<or> length ds = 1
            then Inr (tensor_of 7765 30
                   (\<lambda>i j. sum_list (map (\<lambda>L. L ! (if length ds = 1 then 0 else i) ! j)
                                       (fold_logits models ds mt bs k))))
            else Inl RuntimeError)
       \<and> (\<forall>d data_idx rows out.
             main d models mt k bs data_idx rows = Inr out \<longrightarrow> length rows = 7765)"
proof -
  from assms(1) have ws: "\<And>f. well_shaped 30 (models f)" by simp
  show ?thesis
    using accumulate_logits_eq [where models = models, OF ws assms(2,3)]
      main_Inr [where models = models, OF _ ws assms(3)]
    by blast
qed

theorem accumulate_logits_row_count_witness:
  "(0::int) < 62 \<and> (0::int) < 5
   \<and> accumulate_logits zero_models (map snd example_rows) ''klue/roberta-large'' 62 5
       = Inr (zeros 7765 30)
   \<and> accumulate_logits zero_models [(), ()] ''klue/roberta-large'' 62 5 = Inl RuntimeError"
proof -
  have ws: "\<forall>f. well_shaped 30 (zero_models f :: unit classifier)"
    by (simp add: zero_models_well_shaped)
  have z: "tensor_of 7765 30
             (\<lambda>i j. sum_list (map (\<lambda>L. L ! i ! j)
                (fold_logits zero_models (map snd example_rows) ''klue/roberta-large'' 62 5)))
           = zeros 7765 30"
    unfolding zeros_tensor_of
    by (rule tensor_of_cong)
       (simp add: fold_logits_def zero_models_def raw_logits_zero comp_def length_example_rows)
  from accumulate_logits_row_count [OF ws, where bs = 62 and k = 5
         and ds = "map snd example_rows" and mt = "''klue/roberta-large''", THEN conjunct1]
       accumulate_logits_row_count [OF ws, where bs = 62 and k = 5
         and ds = "[(), ()]" and mt = "''klue/roberta-large''", THEN conjunct1]
  show ?thesis by (simp add: length_example_rows z)
qed

text \<open>
  The claim as stated fails for a test set of one row: five folds add their logits to the
  accumulator without any error.
\<close>

theorem accumulate_logits_one_row_counterexample:
  "accumulate_logits zero_models [()] ''klue/roberta-large'' 62 5 = Inr (zeros 7765 30)
   \<and> length [()] \<noteq> (7765::nat)"
proof -
  have ws: "\<And>f. well_shaped 30 (zero_models f :: unit classifier)"
    by (rule zero_models_well_shaped)
  have z: "tensor_of 7765 30
             (\<lambda>i j. sum_list (map (\<lambda>L. L ! 0 ! j)
                (fold_logits zero_models [()] ''klue/roberta-large'' 62 5)))
           = zeros 7765 30"
    unfolding zeros_tensor_of
    by (rule tensor_of_cong)
       (simp add: fold_logits_def zero_models_def raw_logits_zero comp_def)
  from accumulate_logits_eq [where models = zero_models and ds = "[()]" and bs = 62 and k = 5
      and mt = "''klue/roberta-large''", OF ws]
  show ?thesis by (simp add: z)
qed

text \<open>
  C8. In every inference run that writes its table (at least one fold, classifiers of 30
  classes), the table has one row per row of the test frame, in the same order: row \<open>i\<close>
  carries the id of test row \<open>i\<close>, and its probabilities and label come from row \<open>i\<close> of
  every fold's logits. Each fold's \<open>inference\<close> returns the logits of the batches in
  iteration order: the batches are consecutive slices of the dataset, example \<open>i\<close> is
  entry \<open>i mod batch_size\<close> of batch \<open>i div batch_size\<close>, and row \<open>i\<close> of the returned
  tensor is the row that the classifier computed at that place of that batch.
\<close>

theorem output_rows_follow_dataset_order:
  assumes "main d models mt k bs data_idx rows = Inr out"
    and "\<forall>f. well_shaped 30 (models f)" and "0 < k"
  shows "length out = length rows
       \<and> (\<forall>i < length rows.
            id_col (out ! i) = fst (rows ! i)
          \<and> probs_col (out ! i)
              = softmax (mean_logits (fold_logits models (map snd rows) mt bs k) i)
          \<and> (\<exists>p. argmax (probs_col (out ! i)) = Inr p \<and> d p = Some (pred_label_col (out ! i))))
       \<and> (\<forall>f. inference (models f) (map snd rows) mt bs
                = Inr (raw_logits (models f) (map snd rows) mt bs))
       \<and> concat (batches (nat bs) (map snd rows)) = map snd rows
       \<and> (\<forall>f. \<forall>i < length rows.
            batches (nat bs) (map snd rows) ! (i div nat bs) ! (i mod nat bs) = snd (rows ! i)
          \<and> raw_logits (models f) (map snd rows) mt bs ! i
              = models f (\<not> sublist ''xlm'' mt)
                  (batches (nat bs) (map snd rows) ! (i div nat bs)) ! (i mod nat bs))"
proof -
  from assms(2) have ws: "\<And>f. well_shaped 30 (models f)" by simp
  note m = main_Inr [where models = models, OF assms(1) ws assms(3)]
  from m have bs: "0 < bs" and n: "length rows = 7765" and len: "length out = length rows"
    by simp_all
  have ne: "map snd rows \<noteq> []" using n by auto
  have nb: "0 < nat bs" using bs by simp
  have a: "\<forall>i < length rows.
            id_col (out ! i) = fst (rows ! i)
          \<and> probs_col (out ! i)
              = softmax (mean_logits (fold_logits models (map snd rows) mt bs k) i)
          \<and> (\<exists>p. argmax (probs_col (out ! i)) = Inr p \<and> d p = Some (pred_label_col (out ! i)))"
    using m by metis
  have b: "\<forall>f. inference (models f) (map snd rows) mt bs
                = Inr (raw_logits (models f) (map snd rows) mt bs)"
    using inference_well_shaped [OF ws bs ne] by blast
  have c: "concat (batches (nat bs) (map snd rows)) = map snd rows"
    using nb by (rule concat_batches)
  have e: "batches (nat bs) (map snd rows) ! (i div nat bs) ! (i mod nat bs) = snd (rows ! i)
          \<and> raw_logits (models f) (map snd rows) mt bs ! i
              = models f (\<not> sublist ''xlm'' mt)
                  (batches (nat bs) (map snd rows) ! (i div nat bs)) ! (i mod nat bs)"
    if i: "i < length rows" for f i
  proof
    from i have i': "i < length (map snd rows)" by simp
    from batches_nth [OF nb i'] i
    show "batches (nat bs) (map snd rows) ! (i div nat bs) ! (i mod nat bs) = snd (rows ! i)"
      by simp
    have "\<And>b. length (models f (\<not> sublist ''xlm'' mt) b) = length b"
      using ws [of f] by (simp add: well_shaped_def)
    from concat_map_nth [of "models f (\<not> sublist ''xlm'' mt)", OF this nb i']
    show "raw_logits (models f) (map snd rows) mt bs ! i
              = models f (\<not> sublist ''xlm'' mt)
                  (batches (nat bs) (map snd rows) ! (i div nat bs)) ! (i mod nat bs)"
      by (simp add: raw_logits_def)
  qed
  from len a b c e show ?thesis by blast
qed

theorem output_rows_follow_dataset_order_witness:
  "\<exists>out. main example_dict zero_models ''klue/roberta-large'' 5 62 0 example_rows = Inr out
     \<and> (0::int) < 5
     \<and> length out = length example_rows
     \<and> id_col (out ! 100) = fst (example_rows ! 100)
     \<and> batches (nat 62) (map snd example_rows) ! (100 div nat 62) ! (100 mod nat 62)
         = snd (example_rows ! 100)"
proof -
  from example_run obtain out where
    run: "main example_dict zero_models ''klue/roberta-large'' 5 62 0 example_rows = Inr out" ..
  have ws: "\<forall>f. well_shaped 30 (zero_models f :: unit classifier)"
    by (simp add: zero_models_well_shaped)
  have i: "100 < length example_rows" by (simp add: length_example_rows)
  from output_rows_follow_dataset_order [OF run ws] run i show ?thesis by auto
qed

subsection \<open>What an evaluation checkpoint changes\<close>

lemma eval_checkpoint_trace:
  "st_trace (eval_checkpoint env a k s) =
     st_trace s @ [\<lparr>tr_fold = k, tr_step = st_total_idx s,
                     tr_result = evaluate env k (st_total_idx s) (st_model s)\<rparr>]"
  by (simp add: eval_checkpoint_def Let_def)

lemma eval_checkpoint_report:
  "report_files (st_fs (eval_checkpoint env a k s)) =
     (report_files (st_fs s))
       (k := append_file (report_files (st_fs s) k)
               (report_entry (st_total_idx s) (evaluate env k (st_total_idx s) (st_model s))))"
  by (simp add: eval_checkpoint_def Let_def save_pretrained_def)

lemma eval_checkpoint_best_loss:
  "st_best_eval_loss (eval_checkpoint env a k s) =
     min (st_best_eval_loss s) (ev_loss (evaluate env k (st_total_idx s) (st_model s)))"
  by (simp add: eval_checkpoint_def Let_def min_def)

lemma eval_checkpoint_best_f1:
  "st_best_eval_f1 (eval_checkpoint env a k s) =
     max (st_best_eval_f1 s) (ev_f1 (evaluate env k (st_total_idx s) (st_model s)))"
  by (simp add: eval_checkpoint_def Let_def max_def)

lemma eval_checkpoint_saves_best_loss:
  "checkpoint_dirs (st_fs (eval_checkpoint env a k s)) (i, Best_loss) =
     (if i = k \<and> ev_loss (evaluate env k (st_total_idx s) (st_model s)) < st_best_eval_loss s
      then Some (st_model s) else checkpoint_dirs (st_fs s) (i, Best_loss))"
  by (simp add: eval_checkpoint_def Let_def save_pretrained_def)

lemma eval_checkpoint_saves_best_f1:
  "checkpoint_dirs (st_fs (eval_checkpoint env a k s)) (i, Best_f1) =
     (if i = k \<and> ev_f1 (evaluate env k (st_total_idx s) (st_model s)) > st_best_eval_f1 s
      then Some (st_model s) else checkpoint_dirs (st_fs s) (i, Best_f1))"
  by (simp add: eval_checkpoint_def Let_def save_pretrained_def)

lemma eval_checkpoint_other_fold:
  "i \<noteq> k \<Longrightarrow> checkpoint_dirs (st_fs (eval_checkpoint env a k s)) (i, tag)
                = checkpoint_dirs (st_fs s) (i, tag)"
  by (simp add: eval_checkpoint_def Let_def save_pretrained_def)

lemma eval_checkpoint_vars:
  "st_model (eval_checkpoint env a k s) = st_model s"
  "st_optim (eval_checkpoint env a k s) = st_optim s"
  "st_total_idx (eval_checkpoint env a k s) = st_total_idx s"
  "st_eval_average_loss (eval_checkpoint env a k s)
     = Some (ev_loss (evaluate env k (st_total_idx s) (st_model s)))"
  "config_file (st_fs (eval_checkpoint env a k s)) = config_file (st_fs s)"
  by (simp_all add: eval_checkpoint_def Let_def save_pretrained_def)

subsection \<open>An epoch without evaluation\<close>

lemma train_batch_no_eval:
  assumes "args_logging_step a \<noteq> 0" and "int (st_total_idx s) + 1 < args_eval_step a"
  shows "\<exists>s'. train_batch env a k epoch idx s = Inr s'
            \<and> st_total_idx s' = st_total_idx s + 1
            \<and> st_eval_average_loss s' = st_eval_average_loss s"
proof -
  have "(int (st_total_idx s) + 1) mod args_eval_step a = int (st_total_idx s) + 1"
    using assms(2) by simp
  then have "(int (st_total_idx s) + 1) mod args_eval_step a \<noteq> 0" by simp
  then show ?thesis
    using assms by (simp add: train_batch_def Let_def split: prod.splits)
qed

lemma batches_no_eval:
  assumes "args_logging_step a \<noteq> 0"
    and "int (st_total_idx s) + int (length xs) < args_eval_step a"
  shows "\<exists>s'. for_loop (train_batch env a k epoch) xs s = Inr s'
            \<and> st_eval_average_loss s' = st_eval_average_loss s"
  using assms(2)
proof (induction xs arbitrary: s)
  case Nil
  then show ?case by simp
next
  case (Cons x xs)
  from Cons.prems have "int (st_total_idx s) + 1 < args_eval_step a" by simp
  from train_batch_no_eval [OF assms(1) this, of env k epoch x]
  obtain s1 where s1: "train_batch env a k epoch x s = Inr s1"
    and t: "st_total_idx s1 = st_total_idx s + 1"
    and e: "st_eval_average_loss s1 = st_eval_average_loss s"
    by blast
  from Cons.prems t have "int (st_total_idx s1) + int (length xs) < args_eval_step a" by simp
  from Cons.IH [OF this] s1 e show ?case by simp
qed

lemma batches_no_eval_empty:
  "\<exists>s'. for_loop (train_batch env a k epoch) [] s = Inr s'
            \<and> st_eval_average_loss s' = st_eval_average_loss s"
  by simp

lemma train_epoch_unbound:
  assumes "args_lr_scheduler a = ''reduceLR''" and "st_eval_average_loss s = None"
    and "st_total_idx s = 0" and "int (n_batches env a k) < args_eval_step a"
    and "args_logging_step a \<noteq> 0 \<or> n_batches env a k = 0"
  shows "train_epoch env a k epoch s = Inl (UnboundLocalError ''eval_average_loss'')"
proof -
  have "\<exists>s'. for_loop (train_batch env a k epoch) [0 ..< n_batches env a k] s = Inr s'
            \<and> st_eval_average_loss s' = st_eval_average_loss s"
  proof (cases "n_batches env a k = 0")
    case True
    then show ?thesis by simp
  next
    case False
    with assms(5) have "args_logging_step a \<noteq> 0" by simp
    then show ?thesis using assms(3,4) by (intro batches_no_eval) simp_all
  qed
  then show ?thesis using assms(1,2) by (auto simp: train_epoch_def)
qed

lemma fold_init_vars:
  "st_model (fold_init env a k st) = new_model env k"
  "st_optim (fold_init env a k st) = new_optim env k (new_model env k)"
  "st_best_eval_loss (fold_init env a k st) = 1000000000"
  "st_best_eval_f1 (fold_init env a k st) = 0"
  "st_total_idx (fold_init env a k st) = 0"
  "st_eval_average_loss (fold_init env a k st) = st_eval_average_loss st"
  "st_trace (fold_init env a k st) = st_trace st"
  "report_files (st_fs (fold_init env a k st)) = (report_files (st_fs st))(k \<mapsto> [])"
  "checkpoint_dirs (st_fs (fold_init env a k st)) = checkpoint_dirs (st_fs st)"
  "config_file (st_fs (fold_init env a k st)) = Some (model_config_parameters a)"
  by (simp_all add: fold_init_def Let_def)

lemma train_fold_unbound:
  assumes "args_lr_scheduler a = ''reduceLR''" and "st_eval_average_loss st = None"
    and "0 < args_epochs a" and "int (n_batches env a k) < args_eval_step a"
    and "args_logging_step a \<noteq> 0 \<or> n_batches env a k = 0"
    and "train_data_idx env < train_size env k"
    and "0 < args_batch_size a" and "0 < args_valid_batch_size a"
  shows "train_fold env a k st = Inl (UnboundLocalError ''eval_average_loss'')"
proof -
  from assms(3) have "[0 ..< nat (args_epochs a)] = 0 # [Suc 0 ..< nat (args_epochs a)]"
    by (simp add: upt_conv_Cons)
  then obtain es where es: "[0 ..< nat (args_epochs a)] = 0 # es" ..
  have "train_epoch env a k 0 (fold_init env a k st)
          = Inl (UnboundLocalError ''eval_average_loss'')"
    using assms(1,2,4,5) by (intro train_epoch_unbound) (simp_all add: fold_init_vars)
  then show ?thesis
    using assms(6,7,8) by (simp add: train_fold_def es)
qed

subsection \<open>The claims about the unassigned variable and the fresh start of a fold\<close>

text \<open>
  C10. With the plateau scheduler (\<open>reduceLR\<close>), if a fold is entered while
  \<open>eval_average_loss\<close> has never been assigned (as it is at the first fold, and at any
  fold before which no evaluation has fired), and the batches of the fold's first epoch
  are fewer than the evaluation interval, so that no evaluation fires in it, then the
  call \<open>scheduler.step(eval_average_loss)\<close> at the end of that epoch reads the unassigned
  variable and the fold, and with it the run, ends in \<open>UnboundLocalError\<close>. The epoch
  boundary must be reached: the batch sizes are positive, the example printed at line
  162 exists, and \<open>logging_step\<close> is not 0 unless the epoch has no batch at all. For a
  whole run, started with the variable unassigned: when fold \<open>k\<close> has too few batches and
  the first fold has no more batches than fold \<open>k\<close> (the stratified splitter gives the
  first fold the largest validation part), the run ends in this error, in its first fold.
\<close>

theorem plateau_scheduler_reads_unassigned_loss:
  assumes "args_lr_scheduler a = ''reduceLR''" and "st_eval_average_loss st = None"
    and "0 < args_epochs a" and "int (n_batches env a k) < args_eval_step a"
    and "args_logging_step a \<noteq> 0 \<or> n_batches env a k = 0"
    and "train_data_idx env < train_size env k"
    and "0 < args_batch_size a" and "0 < args_valid_batch_size a"
  shows "train_fold env a k st = Inl (UnboundLocalError ''eval_average_loss'')
       \<and> (2 \<le> args_kfold_splits a \<and> n_batches env a 0 \<le> n_batches env a k
              \<and> train_data_idx env < train_size env 0
            \<longrightarrow> train env a st = Inl (UnboundLocalError ''eval_average_loss''))"
proof -
  have fold: "train_fold env a k st = Inl (UnboundLocalError ''eval_average_loss'')"
    using assms by (rule train_fold_unbound)
  have "train env a st = Inl (UnboundLocalError ''eval_average_loss'')"
    if "2 \<le> args_kfold_splits a" and le: "n_batches env a 0 \<le> n_batches env a k"
      and idx: "train_data_idx env < train_size env 0"
  proof -
    from le assms(4) have few: "int (n_batches env a 0) < args_eval_step a" by simp
    from le assms(5) have lg: "args_logging_step a \<noteq> 0 \<or> n_batches env a 0 = 0" by auto
    have first: "train_fold env a 0 st = Inl (UnboundLocalError ''eval_average_loss'')"
      using assms(1,2,3) few lg idx assms(7,8) by (rule train_fold_unbound)
    from that(1) have "[0 ..< nat (args_kfold_splits a)] = 0 # [Suc 0 ..< nat (args_kfold_splits a)]"
      by (simp add: upt_conv_Cons)
    with first that(1) show ?thesis by (simp add: train_def)
  qed
  with fold show ?thesis by blast
qed

text \<open>
  Two folds of five training rows, batches of five and an evaluation every second step:
  the only step of the first epoch brings the counter to 1, and the run ends in the error.
\<close>

theorem plateau_scheduler_reads_unassigned_loss_witness:
  "args_lr_scheduler (example_args\<lparr>args_eval_step := 2\<rparr>) = ''reduceLR''
   \<and> st_eval_average_loss (start_locals no_files) = None
   \<and> int (n_batches (example_env 1 50) (example_args\<lparr>args_eval_step := 2\<rparr>) 1)
       < args_eval_step (example_args\<lparr>args_eval_step := 2\<rparr>)
   \<and> train_fold (example_env 1 50) (example_args\<lparr>args_eval_step := 2\<rparr>) 1 (start_locals no_files)
       = Inl (UnboundLocalError ''eval_average_loss'')
   \<and> train (example_env 1 50) (example_args\<lparr>args_eval_step := 2\<rparr>) (start_locals no_files)
       = Inl (UnboundLocalError ''eval_average_loss'')"
  using plateau_scheduler_reads_unassigned_loss
    [where a = "example_args\<lparr>args_eval_step := 2\<rparr>" and st = "start_locals no_files"
       and env = "example_env 1 50" and k = 1]
  by (simp add: example_args_def example_env_def start_locals_def n_batches_def)

text \<open>
  C9. A fold starts from the values that lines 147-255 assign: the trackers are 1e9 and
  0, the step counter is 0, the model is the one built anew from the pretrained
  identifier and the optimizer is built over that model. Whatever the model, the
  optimizer, the trackers and the step counter were when the fold was entered, for
  instance what the previous fold left in them, the fold does the same.
\<close>

theorem fold_starts_afresh:
  "st_best_eval_loss (fold_init env a k st) = 1000000000
   \<and> st_best_eval_f1 (fold_init env a k st) = 0
   \<and> st_total_idx (fold_init env a k st) = 0
   \<and> st_model (fold_init env a k st) = new_model env k
   \<and> st_optim (fold_init env a k st) = new_optim env k (new_model env k)
   \<and> train_fold env a k
        (st\<lparr>st_model := w, st_optim := opt, st_best_eval_loss := bl,
            st_best_eval_f1 := bf, st_total_idx := ti\<rparr>)
       = train_fold env a k st"
  by (simp add: fold_init_vars train_fold_def) (simp add: fold_init_def Let_def)

theorem fold_starts_afresh_witness:
  "train_fold (example_env 1 50) example_args 1
     ((start_locals no_files)\<lparr>st_model := 7, st_optim := 3, st_best_eval_loss := 1 / 4,
        st_best_eval_f1 := 80, st_total_idx := 900\<rparr>)
   = train_fold (example_env 1 50) example_args 1 (start_locals no_files)"
  using fold_starts_afresh [where env = "example_env 1 50" and a = example_args and k = 1
      and st = "start_locals no_files" and w = 7 and opt = 3 and bl = "1 / 4" and bf = 80
      and ti = 900]
  by simp

subsection \<open>The trackers and the files through a fold\<close>

lemma fold_events_eval_checkpoint:
  "fold_events i (eval_checkpoint env a k s) =
     (if i = k
      then fold_events k s @ [\<lparr>tr_fold = k, tr_step = st_total_idx s,
                                tr_result = evaluate env k (st_total_idx s) (st_model s)\<rparr>]
      else fold_events i s)"
  by (simp add: fold_events_def eval_checkpoint_trace)

lemma Min_snoc:
  "Min (set (c # xs @ [x])) = min (Min (set (c # xs))) (x::real)"
proof -
  have "set (c # xs @ [x]) = insert x (set (c # xs))" by auto
  then show ?thesis by (simp only: Min_insert [OF List.finite_set] min.commute) simp
qed

lemma Max_snoc:
  "Max (set (c # xs @ [x])) = max (Max (set (c # xs))) (x::real)"
proof -
  have "set (c # xs @ [x]) = insert x (set (c # xs))" by auto
  then show ?thesis by (simp only: Max_insert [OF List.finite_set] max.commute) simp
qed

lemma fold_losses_eval_checkpoint:
  "fold_losses k (eval_checkpoint env a k s)
     = fold_losses k s @ [ev_loss (evaluate env k (st_total_idx s) (st_model s))]"
  by (simp add: fold_losses_def fold_events_eval_checkpoint)

lemma fold_f1s_eval_checkpoint:
  "fold_f1s k (eval_checkpoint env a k s)
     = fold_f1s k s @ [ev_f1 (evaluate env k (st_total_idx s) (st_model s))]"
  by (simp add: fold_f1s_def fold_events_eval_checkpoint)

lemma trackers_ok_eval_checkpoint:
  assumes "trackers_ok k s"
  shows "trackers_ok k (eval_checkpoint env a k s)"
proof -
  let ?r = "evaluate env k (st_total_idx s) (st_model s)"
  from assms have l: "st_best_eval_loss s = Min (set (1000000000 # fold_losses k s))"
    and f: "st_best_eval_f1 s = Max (set (0 # fold_f1s k s))"
    by (simp_all only: trackers_ok_def)
  have "st_best_eval_loss (eval_checkpoint env a k s)
          = min (Min (set (1000000000 # fold_losses k s))) (ev_loss ?r)"
    by (simp only: eval_checkpoint_best_loss l)
  also have "\<dots> = Min (set (1000000000 # fold_losses k s @ [ev_loss ?r]))"
    by (rule Min_snoc [symmetric])
  finally have 1: "st_best_eval_loss (eval_checkpoint env a k s)
          = Min (set (1000000000 # fold_losses k (eval_checkpoint env a k s)))"
    by (simp only: fold_losses_eval_checkpoint)
  have "st_best_eval_f1 (eval_checkpoint env a k s)
          = max (Max (set (0 # fold_f1s k s))) (ev_f1 ?r)"
    by (simp only: eval_checkpoint_best_f1 f)
  also have "\<dots> = Max (set (0 # fold_f1s k s @ [ev_f1 ?r]))"
    by (rule Max_snoc [symmetric])
  finally have 2: "st_best_eval_f1 (eval_checkpoint env a k s)
          = Max (set (0 # fold_f1s k (eval_checkpoint env a k s)))"
    by (simp only: fold_f1s_eval_checkpoint)
  from 1 2 show ?thesis by (simp only: trackers_ok_def simp_thms)
qed

lemma trackers_ok_fold_init:
  "\<forall>e \<in> set (st_trace st). tr_fold e \<noteq> k \<Longrightarrow> trackers_ok k (fold_init env a k st)"
proof -
  assume "\<forall>e \<in> set (st_trace st). tr_fold e \<noteq> k"
  then have "fold_events k (fold_init env a k st) = []"
    by (auto simp: fold_events_def fold_init_vars filter_empty_conv)
  then show ?thesis
    by (simp add: trackers_ok_def fold_losses_def fold_f1s_def fold_init_vars)
qed

lemma Min_less_iff_list:
  "Min (set (c # xs)) < (c::real) \<longleftrightarrow> (\<exists>x \<in> set xs. x < c)"
  by (subst Min_less_iff) auto

lemma Max_greater_iff_list:
  "(c::real) < Max (set (c # xs)) \<longleftrightarrow> (\<exists>x \<in> set xs. c < x)"
  by (subst Max_gr_iff) auto

lemma report_of_events_snoc:
  "report_of_events (es @ [e]) = report_of_events es @ report_entry (tr_step e) (tr_result e)"
  by (simp add: report_of_events_def)

lemma fold_facts_eval_checkpoint_same:
  assumes f: "fold_facts k s" and t: "trackers_ok k s"
  shows "fold_facts k (eval_checkpoint env a k s)"
proof -
  let ?r = "evaluate env k (st_total_idx s) (st_model s)"
  let ?s' = "eval_checkpoint env a k s"
  have ev: "fold_events k ?s' = fold_events k s @ [\<lparr>tr_fold = k, tr_step = st_total_idx s, tr_result = ?r\<rparr>]"
    by (simp add: fold_events_eval_checkpoint)
  from f have rep: "report_files (st_fs s) k = Some (report_of_events (fold_events k s))"
    by (simp add: fold_facts_def)
  have 1: "report_files (st_fs ?s') k = Some (report_of_events (fold_events k ?s'))"
    by (simp add: eval_checkpoint_report rep append_file_def ev report_of_events_snoc)
  have 2: "checkpoint_dirs (st_fs ?s') (k, Best_loss) \<noteq> None"
    if "\<exists>e \<in> set (fold_events k ?s'). ev_loss (tr_result e) < 1000000000"
  proof (cases "ev_loss ?r < st_best_eval_loss s")
    case True
    then show ?thesis by (simp add: eval_checkpoint_saves_best_loss)
  next
    case False
    have "\<exists>e \<in> set (fold_events k s). ev_loss (tr_result e) < 1000000000"
    proof (rule ccontr)
      assume no: "\<not> (\<exists>e \<in> set (fold_events k s). ev_loss (tr_result e) < 1000000000)"
      with that have new: "ev_loss ?r < 1000000000" by (auto simp: ev)
      from no have "\<not> (\<exists>x \<in> set (fold_losses k s). x < 1000000000)"
        by (auto simp: fold_losses_def)
      then have "\<not> Min (set (1000000000 # fold_losses k s)) < 1000000000"
        by (simp only: Min_less_iff_list not_False_eq_True)
      moreover have "Min (set (1000000000 # fold_losses k s)) \<le> 1000000000"
        by (rule Min_le) simp_all
      moreover from t have "st_best_eval_loss s = Min (set (1000000000 # fold_losses k s))"
        by (simp only: trackers_ok_def)
      ultimately have "st_best_eval_loss s = 1000000000" by linarith
      with new False show False by simp
    qed
    with f have "checkpoint_dirs (st_fs s) (k, Best_loss) \<noteq> None"
      by (simp add: fold_facts_def)
    with False show ?thesis by (simp add: eval_checkpoint_saves_best_loss)
  qed
  have 3: "checkpoint_dirs (st_fs ?s') (k, Best_f1) \<noteq> None"
    if "\<exists>e \<in> set (fold_events k ?s'). 0 < ev_f1 (tr_result e)"
  proof (cases "ev_f1 ?r > st_best_eval_f1 s")
    case True
    then show ?thesis by (simp add: eval_checkpoint_saves_best_f1)
  next
    case False
    have "\<exists>e \<in> set (fold_events k s). 0 < ev_f1 (tr_result e)"
    proof (rule ccontr)
      assume no: "\<not> (\<exists>e \<in> set (fold_events k s). 0 < ev_f1 (tr_result e))"
      with that have new: "0 < ev_f1 ?r" by (auto simp: ev)
      from no have "\<not> (\<exists>x \<in> set (fold_f1s k s). 0 < x)"
        by (auto simp: fold_f1s_def)
      then have "\<not> 0 < Max (set (0 # fold_f1s k s))"
        by (simp only: Max_greater_iff_list not_False_eq_True)
      moreover have "0 \<le> Max (set (0 # fold_f1s k s))"
        by (rule Max_ge) simp_all
      moreover from t have "st_best_eval_f1 s = Max (set (0 # fold_f1s k s))"
        by (simp only: trackers_ok_def)
      ultimately have "st_best_eval_f1 s = 0" by linarith
      with new False show False by simp
    qed
    with f have "checkpoint_dirs (st_fs s) (k, Best_f1) \<noteq> None"
      by (simp add: fold_facts_def)
    with False show ?thesis by (simp add: eval_checkpoint_saves_best_f1)
  qed
  from 1 2 3 show ?thesis unfolding fold_facts_def by blast
qed

lemma fold_facts_eval_checkpoint_other:
  "i \<noteq> k \<Longrightarrow> fold_facts i (eval_checkpoint env a k s) = fold_facts i s"
  by (simp add: fold_facts_def fold_events_eval_checkpoint eval_checkpoint_report
      eval_checkpoint_other_fold)

lemma untouched_eval_checkpoint:
  "i \<noteq> k \<Longrightarrow> untouched f0 i (eval_checkpoint env a k s) = untouched f0 i s"
  by (simp add: untouched_def eval_checkpoint_report eval_checkpoint_other_fold)

lemma in_fold_eval_checkpoint:
  assumes "in_fold f0 k s"
  shows "in_fold f0 k (eval_checkpoint env a k s)"
proof -
  from assms have tr: "\<forall>e \<in> set (st_trace s). tr_fold e \<le> k"
    and ff: "\<And>i. i \<le> k \<Longrightarrow> fold_facts i s"
    and un: "\<And>i. k < i \<Longrightarrow> untouched f0 i s"
    and tk: "trackers_ok k s"
    by (simp_all add: in_fold_def)
  have "fold_facts i (eval_checkpoint env a k s)" if "i \<le> k" for i
  proof (cases "i = k")
    case True
    with ff [of k] tk show ?thesis by (simp add: fold_facts_eval_checkpoint_same)
  next
    case False
    with ff [OF that] show ?thesis by (simp add: fold_facts_eval_checkpoint_other)
  qed
  moreover have "untouched f0 i (eval_checkpoint env a k s)" if "k < i" for i
    using un [OF that] that by (simp add: untouched_eval_checkpoint)
  moreover have "\<forall>e \<in> set (st_trace (eval_checkpoint env a k s)). tr_fold e \<le> k"
    using tr by (simp add: eval_checkpoint_trace)
  ultimately show ?thesis
    using trackers_ok_eval_checkpoint [OF tk] by (simp add: in_fold_def)
qed

lemma in_fold_fold_init:
  assumes "folds_done f0 k st"
  shows "in_fold f0 k (fold_init env a k st)"
proof -
  let ?s = "fold_init env a k st"
  from assms have tr: "\<forall>e \<in> set (st_trace st). tr_fold e < k"
    and ff: "\<And>i. i < k \<Longrightarrow> fold_facts i st"
    and un: "\<And>i. k \<le> i \<Longrightarrow> untouched f0 i st"
    by (simp_all add: folds_done_def)
  have ev: "fold_events i ?s = fold_events i st" for i
    by (simp add: fold_events_def fold_init_vars)
  from tr have none: "fold_events k st = []"
    by (auto simp: fold_events_def filter_empty_conv)
  have "fold_facts i ?s" if "i \<le> k" for i
  proof (cases "i = k")
    case True
    then show ?thesis
      by (simp add: fold_facts_def ev none fold_init_vars report_of_events_def)
  next
    case False
    with that ff [of i] show ?thesis
      by (simp add: fold_facts_def ev fold_init_vars)
  qed
  moreover have "untouched f0 i ?s" if "k < i" for i
    using un [of i] that by (simp add: untouched_def fold_init_vars)
  moreover have "\<forall>e \<in> set (st_trace ?s). tr_fold e \<le> k"
    using tr by (auto simp: fold_init_vars)
  moreover have "trackers_ok k ?s"
    using tr by (intro trackers_ok_fold_init) auto
  ultimately show ?thesis by (simp add: in_fold_def)
qed

lemma in_fold_cong:
  assumes "st_fs s' = st_fs s" and "st_trace s' = st_trace s"
    and "st_best_eval_loss s' = st_best_eval_loss s"
    and "st_best_eval_f1 s' = st_best_eval_f1 s"
  shows "in_fold f0 k s' = in_fold f0 k s"
  by (simp add: in_fold_def fold_facts_def untouched_def trackers_ok_def fold_events_def
      fold_losses_def fold_f1s_def assms)

lemma in_fold_train_batch:
  assumes inv: "in_fold f0 k s" and run: "train_batch env a k epoch idx s = Inr s'"
  shows "in_fold f0 k s'"
proof -
  obtain w opt where wo: "train_step env k epoch idx (st_model s, st_optim s) = (w, opt)"
    by (cases "train_step env k epoch idx (st_model s, st_optim s)")
  let ?s = "s\<lparr>st_total_idx := st_total_idx s + 1, st_model := w, st_optim := opt\<rparr>"
  have "in_fold f0 k ?s = in_fold f0 k s"
    by (rule in_fold_cong) simp_all
  with inv have s: "in_fold f0 k ?s" by simp
  from run wo have "s' = eval_checkpoint env a k ?s \<or> s' = ?s"
    by (auto simp: train_batch_def Let_def split: if_splits)
  with s show ?thesis by (auto intro: in_fold_eval_checkpoint)
qed

lemma in_fold_train_epoch:
  assumes inv: "in_fold f0 k s" and run: "train_epoch env a k epoch s = Inr s'"
  shows "in_fold f0 k s'"
proof -
  from run obtain s1 where
    loop: "for_loop (train_batch env a k epoch) [0 ..< n_batches env a k] s = Inr s1"
    and s': "s' = s1 \<or> (\<exists>opt. s' = s1\<lparr>st_optim := opt\<rparr>)"
    by (auto simp: train_epoch_def split: sum.splits if_splits option.splits)
  have "in_fold f0 k s1"
    by (rule for_loop_invariant [where P = "in_fold f0 k", OF _ inv loop])
       (rule in_fold_train_batch)
  moreover have "in_fold f0 k (s1\<lparr>st_optim := opt\<rparr>) = in_fold f0 k s1" for opt
    by (rule in_fold_cong) simp_all
  ultimately show ?thesis using s' by auto
qed

lemma folds_done_train_fold:
  assumes inv: "folds_done f0 k st" and run: "train_fold env a k st = Inr st'"
  shows "folds_done f0 (Suc k) st' \<and> trackers_ok k st'"
proof -
  from run have loop:
    "for_loop (train_epoch env a k) [0 ..< nat (args_epochs a)] (fold_init env a k st) = Inr st'"
    by (simp add: train_fold_def split: if_splits)
  have "in_fold f0 k st'"
    by (rule for_loop_invariant [where P = "in_fold f0 k", OF _ in_fold_fold_init [OF inv] loop])
       (rule in_fold_train_epoch)
  then show ?thesis by (auto simp: in_fold_def folds_done_def less_Suc_eq_le)
qed

lemma folds_done_train:
  assumes run: "train env a st = Inr st'" and fresh: "st_trace st = []"
  shows "folds_done (st_fs st) (nat (args_kfold_splits a)) st'"
proof -
  from run have loop:
    "for_loop (train_fold env a) [0 ..< nat (args_kfold_splits a)] st = Inr st'"
    by (simp add: train_def split: if_splits)
  have init: "folds_done (st_fs st) 0 st"
    using fresh by (simp add: folds_done_def untouched_def)
  show ?thesis
    by (rule for_loop_upt_invariant [where R = "folds_done (st_fs st)", OF _ init loop])
       (simp add: folds_done_train_fold)
qed

lemma report_entry_nonempty: "report_entry n r \<noteq> []"
  by (simp add: report_entry_def)

lemma report_of_events_nonempty: "es \<noteq> [] \<Longrightarrow> report_of_events es \<noteq> []"
  by (cases es) (simp_all add: report_of_events_def report_entry_nonempty)

subsection \<open>The small run, evaluated\<close>

lemmas example_run_defs =
  train_def train_fold_def fold_init_def train_epoch_def train_batch_def eval_checkpoint_def
  n_batches_def save_pretrained_def append_file_def example_args_def example_env_def
  start_locals_def no_files_def old_files_def fold_events_def upt_conv_Cons Let_def

subsection \<open>The claims about the report, the trackers and the checkpoints\<close>

text \<open>
  C4, as the code has it. Every evaluation checkpoint appends its text (header line,
  confusion matrix, classification report) to the report of its fold, after what the
  file holds. The start of each fold opens the fold's report with mode \<open>'w'\<close> and so
  empties it: what an earlier run had written there is lost. From then on the report is
  only appended to, and at the end of a run that started with an empty console log the
  report of every fold is exactly the text of all evaluations of that fold, in order.
\<close>

theorem report_is_text_of_fold_evaluations:
  assumes "train env a st = Inr st'" and "st_trace st = []"
    and "k < nat (args_kfold_splits a)"
  shows "report_files (st_fs st') k = Some (report_of_events (fold_events k st'))
       \<and> report_files (st_fs (fold_init env a k s)) k = Some []
       \<and> report_files (st_fs (eval_checkpoint env a k s)) k
           = Some ((case report_files (st_fs s) k of None \<Rightarrow> [] | Some old \<Rightarrow> old)
                   @ report_entry (st_total_idx s) (evaluate env k (st_total_idx s) (st_model s)))"
proof -
  from folds_done_train [OF assms(1,2)] assms(3)
  have "fold_facts k st'" by (simp add: folds_done_def)
  then show ?thesis
    by (simp add: fold_facts_def fold_init_vars eval_checkpoint_report append_file_def)
qed

theorem report_is_text_of_fold_evaluations_witness:
  "train (example_env 1 50) example_args (start_locals no_files)
     = Inr (projr (train (example_env 1 50) example_args (start_locals no_files)))
   \<and> st_trace (start_locals no_files) = []
   \<and> 0 < nat (args_kfold_splits example_args)
   \<and> report_files (st_fs (projr (train (example_env 1 50) example_args (start_locals no_files)))) 0
       = Some (report_of_events
           (fold_events 0 (projr (train (example_env 1 50) example_args (start_locals no_files)))))"
proof -
  have run: "train (example_env 1 50) example_args (start_locals no_files)
     = Inr (projr (train (example_env 1 50) example_args (start_locals no_files)))"
    by (simp add: example_run_defs)
  have fresh: "st_trace (start_locals no_files) = []" by (simp add: start_locals_def)
  have k: "0 < nat (args_kfold_splits example_args)" by (simp add: example_args_def)
  from report_is_text_of_fold_evaluations [OF run fresh k] run fresh k
  show ?thesis by blast
qed

text \<open>
  A report that an earlier run left in the directory of fold 0 is gone after the run:
  the fold's report holds the text of its one evaluation, which begins with \<open>#\<close>.
\<close>

theorem report_truncated_counterexample:
  "report_files (st_fs (start_locals old_files)) 0 = Some ''earlier run''
   \<and> \<not> isl (train (example_env 1 50) example_args (start_locals old_files))
   \<and> report_files (st_fs (projr (train (example_env 1 50) example_args (start_locals old_files)))) 0
       = Some (report_entry 1 (evaluate (example_env 1 50) 0 1 1))
   \<and> \<not> prefix ''earlier run'' (report_entry 1 (evaluate (example_env 1 50) 0 1 1))"
proof -
  have "\<not> prefix ''earlier run'' (report_entry 1 (evaluate (example_env 1 50) 0 1 1))"
    by (simp add: report_entry_def numeral_eq_Suc)
  then show ?thesis by (simp add: example_run_defs)
qed

text \<open>
  C6, as the code has it. At an evaluation checkpoint the \<open>best_loss\<close> checkpoint is
  written exactly when the loss of the pass is strictly below the tracker, and the
  \<open>best_f1\<close> checkpoint exactly when its F1 is strictly above the tracker, and each
  tracker moves to the new value exactly then. The trackers start at 1e9 and 0, so
  after each checkpoint, and at the end of the fold, the loss tracker is the least of
  1e9 and the losses of the fold's evaluations so far, and the F1 tracker the greatest
  of 0 and their F1 values.
\<close>

theorem trackers_after_each_checkpoint:
  "((\<forall>e \<in> set (st_trace st). tr_fold e \<noteq> k) \<longrightarrow> trackers_ok k (fold_init env a k st))
   \<and> (trackers_ok k s \<longrightarrow> trackers_ok k (eval_checkpoint env a k s))
   \<and> checkpoint_dirs (st_fs (eval_checkpoint env a k s)) (k, Best_loss)
       = (if ev_loss (evaluate env k (st_total_idx s) (st_model s)) < st_best_eval_loss s
          then Some (st_model s) else checkpoint_dirs (st_fs s) (k, Best_loss))
   \<and> checkpoint_dirs (st_fs (eval_checkpoint env a k s)) (k, Best_f1)
       = (if ev_f1 (evaluate env k (st_total_idx s) (st_model s)) > st_best_eval_f1 s
          then Some (st_model s) else checkpoint_dirs (st_fs s) (k, Best_f1))
   \<and> st_best_eval_loss (eval_checkpoint env a k s)
       = min (st_best_eval_loss s) (ev_loss (evaluate env k (st_total_idx s) (st_model s)))
   \<and> st_best_eval_f1 (eval_checkpoint env a k s)
       = max (st_best_eval_f1 s) (ev_f1 (evaluate env k (st_total_idx s) (st_model s)))
   \<and> (folds_done f0 k st \<and> train_fold env a k st = Inr st' \<longrightarrow> trackers_ok k st')"
  using trackers_ok_fold_init [of st k env a] trackers_ok_eval_checkpoint [of k s env a]
    folds_done_train_fold [of f0 k st env a st']
  by (simp add: eval_checkpoint_saves_best_loss eval_checkpoint_saves_best_f1
      eval_checkpoint_best_loss eval_checkpoint_best_f1)

theorem trackers_after_each_checkpoint_witness:
  "trackers_ok 0 (fold_init (example_env 1 50) example_args 0 (start_locals no_files))
   \<and> trackers_ok 0 (eval_checkpoint (example_env 1 50) example_args 0
         (fold_init (example_env 1 50) example_args 0 (start_locals no_files)))
   \<and> st_best_eval_loss (eval_checkpoint (example_env 1 50) example_args 0
         (fold_init (example_env 1 50) example_args 0 (start_locals no_files))) = 1
   \<and> st_best_eval_f1 (eval_checkpoint (example_env 1 50) example_args 0
         (fold_init (example_env 1 50) example_args 0 (start_locals no_files))) = 50"
proof -
  note t = trackers_after_each_checkpoint [where st = "start_locals no_files" and k = 0
      and env = "example_env 1 50" and a = example_args
      and s = "fold_init (example_env 1 50) example_args 0 (start_locals no_files)"]
  have "\<forall>e \<in> set (st_trace (start_locals no_files)). tr_fold e \<noteq> 0"
    by (simp add: start_locals_def)
  with t have init: "trackers_ok 0 (fold_init (example_env 1 50) example_args 0 (start_locals no_files))"
    by blast
  with t have "trackers_ok 0 (eval_checkpoint (example_env 1 50) example_args 0
         (fold_init (example_env 1 50) example_args 0 (start_locals no_files)))"
    by blast
  with init show ?thesis by (simp add: example_run_defs)
qed

text \<open>
  A validation loss above the initial value of the tracker: after the checkpoint the
  tracker is still 1e9, not the least loss of the fold's evaluations, which is 2e9, and no
  \<open>best_loss\<close> checkpoint has been written.
\<close>

theorem tracker_not_least_loss_counterexample:
  "st_best_eval_loss (eval_checkpoint (example_env 2000000000 50) example_args 0
       (fold_init (example_env 2000000000 50) example_args 0 (start_locals no_files)))
     = 1000000000
   \<and> fold_losses 0 (eval_checkpoint (example_env 2000000000 50) example_args 0
       (fold_init (example_env 2000000000 50) example_args 0 (start_locals no_files)))
     = [2000000000]
   \<and> checkpoint_dirs (st_fs (eval_checkpoint (example_env 2000000000 50) example_args 0
       (fold_init (example_env 2000000000 50) example_args 0 (start_locals no_files))))
       (0, Best_loss) = None"
  by (simp add: example_run_defs fold_losses_def)

text \<open>
  C7, as the code has it. After a complete run that started with an empty console log,
  for every fold \<open>k\<close> below the number of splits: if an evaluation fired in the fold, its
  report file is not empty; if one of the fold's evaluations had a loss below 1e9, the
  fold directory holds a \<open>best_loss\<close> checkpoint; if one had an F1 above 0, it holds a
  \<open>best_f1\<close> checkpoint. The directories of fold numbers from the number of splits on are
  as they were before the run.
\<close>

theorem fold_directories_after_run:
  assumes "train env a st = Inr st'" and "st_trace st = []"
    and "k < nat (args_kfold_splits a)"
  shows "(fold_events k st' \<noteq> []
            \<longrightarrow> (\<exists>text. report_files (st_fs st') k = Some text \<and> text \<noteq> []))
       \<and> ((\<exists>e \<in> set (fold_events k st'). ev_loss (tr_result e) < 1000000000)
            \<longrightarrow> checkpoint_dirs (st_fs st') (k, Best_loss) \<noteq> None)
       \<and> ((\<exists>e \<in> set (fold_events k st'). 0 < ev_f1 (tr_result e))
            \<longrightarrow> checkpoint_dirs (st_fs st') (k, Best_f1) \<noteq> None)
       \<and> (\<forall>i \<ge> nat (args_kfold_splits a). untouched (st_fs st) i st')"
proof -
  note fd = folds_done_train [OF assms(1,2)]
  from fd assms(3) have "fold_facts k st'" by (simp add: folds_done_def)
  moreover from fd have "\<forall>i \<ge> nat (args_kfold_splits a). untouched (st_fs st) i st'"
    by (simp add: folds_done_def)
  ultimately show ?thesis
    by (auto simp: fold_facts_def report_of_events_nonempty)
qed

theorem fold_directories_after_run_witness:
  "train (example_env 1 50) example_args (start_locals no_files)
     = Inr (projr (train (example_env 1 50) example_args (start_locals no_files)))
   \<and> st_trace (start_locals no_files) = []
   \<and> 1 < nat (args_kfold_splits example_args)
   \<and> fold_events 1 (projr (train (example_env 1 50) example_args (start_locals no_files))) \<noteq> []
   \<and> report_files (st_fs (projr (train (example_env 1 50) example_args (start_locals no_files)))) 1
       \<noteq> Some []
   \<and> checkpoint_dirs (st_fs (projr (train (example_env 1 50) example_args (start_locals no_files))))
       (1, Best_loss) \<noteq> None
   \<and> checkpoint_dirs (st_fs (projr (train (example_env 1 50) example_args (start_locals no_files))))
       (1, Best_f1) \<noteq> None"
proof -
  let ?final = "projr (train (example_env 1 50) example_args (start_locals no_files))"
  have run: "train (example_env 1 50) example_args (start_locals no_files) = Inr ?final"
    by (simp add: example_run_defs)
  have fresh: "st_trace (start_locals no_files) = []" by (simp add: start_locals_def)
  have k: "1 < nat (args_kfold_splits example_args)" by (simp add: example_args_def)
  have ev: "fold_events 1 ?final
      = [\<lparr>tr_fold = 1, tr_step = 1, tr_result = evaluate (example_env 1 50) 1 1 1\<rparr>]"
    by (simp add: example_run_defs)
  have "fold_events 1 ?final \<noteq> []"
    and "\<exists>e \<in> set (fold_events 1 ?final). ev_loss (tr_result e) < 1000000000"
    and "\<exists>e \<in> set (fold_events 1 ?final). 0 < ev_f1 (tr_result e)"
    unfolding ev by (simp_all add: example_env_def)
  with fold_directories_after_run [OF run fresh k] run fresh k
  show ?thesis by auto
qed

text \<open>
  The scenario of the specification with a model that gets no relation right, so that
  every validation F1 is 0: both folds evaluate, the run completes, and neither fold
  directory holds a \<open>best_f1\<close> checkpoint.
\<close>

theorem no_best_f1_checkpoint_counterexample:
  "\<not> isl (train (example_env 1 0) example_args (start_locals no_files))
   \<and> fold_events 0 (projr (train (example_env 1 0) example_args (start_locals no_files))) \<noteq> []
   \<and> fold_events 1 (projr (train (example_env 1 0) example_args (start_locals no_files))) \<noteq> []
   \<and> checkpoint_dirs (st_fs (projr (train (example_env 1 0) example_args (start_locals no_files))))
       (0, Best_f1) = None
   \<and> checkpoint_dirs (st_fs (projr (train (example_env 1 0) example_args (start_locals no_files))))
       (1, Best_f1) = None"
  by (simp add: example_run_defs)

subsection \<open>The configuration file after a training run\<close>

lemma config_file_train_batch:
  assumes "config_file (st_fs s) = c" and "train_batch env a k epoch idx s = Inr s'"
  shows "config_file (st_fs s') = c"
proof -
  obtain w opt where wo: "train_step env k epoch idx (st_model s, st_optim s) = (w, opt)"
    by (cases "train_step env k epoch idx (st_model s, st_optim s)")
  let ?s = "s\<lparr>st_total_idx := st_total_idx s + 1, st_model := w, st_optim := opt\<rparr>"
  from assms(2) wo have "s' = eval_checkpoint env a k ?s \<or> s' = ?s"
    by (auto simp: train_batch_def Let_def split: if_splits)
  with assms(1) show ?thesis by (auto simp: eval_checkpoint_vars)
qed

lemma config_file_train_epoch:
  assumes "config_file (st_fs s) = c" and "train_epoch env a k epoch s = Inr s'"
  shows "config_file (st_fs s') = c"
proof -
  from assms(2) obtain s1 where
    loop: "for_loop (train_batch env a k epoch) [0 ..< n_batches env a k] s = Inr s1"
    and s': "s' = s1 \<or> (\<exists>opt. s' = s1\<lparr>st_optim := opt\<rparr>)"
    by (auto simp: train_epoch_def split: sum.splits if_splits option.splits)
  have "config_file (st_fs s1) = c"
    by (rule for_loop_invariant [where P = "\<lambda>s. config_file (st_fs s) = c", OF _ assms(1) loop])
       (rule config_file_train_batch)
  with s' show ?thesis by auto
qed

lemma config_file_train_fold:
  assumes "train_fold env a k st = Inr st'"
  shows "config_file (st_fs st') = Some (model_config_parameters a)"
proof -
  from assms have loop:
    "for_loop (train_epoch env a k) [0 ..< nat (args_epochs a)] (fold_init env a k st) = Inr st'"
    by (simp add: train_fold_def split: if_splits)
  have init: "config_file (st_fs (fold_init env a k st)) = Some (model_config_parameters a)"
    by (simp add: fold_init_vars)
  show ?thesis
    by (rule for_loop_invariant
          [where P = "\<lambda>s. config_file (st_fs s) = Some (model_config_parameters a)",
           OF _ init loop])
       (rule config_file_train_epoch)
qed

lemma config_file_train:
  assumes "train env a st = Inr st'"
  shows "config_file (st_fs st') = Some (model_config_parameters a)"
proof -
  from assms have k: "2 \<le> args_kfold_splits a"
    and loop: "for_loop (train_fold env a) [0 ..< nat (args_kfold_splits a)] st = Inr st'"
    by (simp_all add: train_def split: if_splits)
  have "0 < nat (args_kfold_splits a)
          \<longrightarrow> config_file (st_fs st') = Some (model_config_parameters a)"
  proof (rule for_loop_upt_invariant
          [where R = "\<lambda>j s. 0 < j \<longrightarrow> config_file (st_fs s) = Some (model_config_parameters a)",
           OF _ _ loop])
    fix j s s' assume "train_fold env a j s = Inr s'"
    then have "config_file (st_fs s') = Some (model_config_parameters a)"
      by (rule config_file_train_fold)
    then show "0 < Suc j \<longrightarrow> config_file (st_fs s') = Some (model_config_parameters a)"
      by simp
  qed simp
  with k show ?thesis by simp
qed

text \<open>
  C1. The claim is that the configuration file written by training holds every key that
  inference reads, so that the load at lines 81-84 of \<open>inference_kfold.py\<close> succeeds.
  After every training run that completes, the file holds the dict of lines 222-233, with
  the keys \<open>token_type\<close>, \<open>sep_type\<close>, \<open>kfold_splits\<close> and \<open>model\<close> but neither
  \<open>model_case\<close> nor \<open>use_lstm\<close>; whatever the arguments of the run, the load of that
  file raises \<open>KeyError('model_case')\<close>.
\<close>

theorem inference_cannot_read_training_config:
  assumes "train env a st = Inr st'"
  shows "config_file (st_fs st') = Some (model_config_parameters a)
       \<and> read_mcp (model_config_parameters a) = Inl (KeyError ''model_case'')"
  using assms by (simp add: config_file_train read_mcp_training_config)

theorem inference_cannot_read_training_config_witness:
  "train (example_env 1 50) example_args (start_locals no_files)
     = Inr (projr (train (example_env 1 50) example_args (start_locals no_files)))
   \<and> config_file (st_fs (projr (train (example_env 1 50) example_args (start_locals no_files))))
       = Some (model_config_parameters example_args)
   \<and> read_mcp (model_config_parameters example_args) = Inl (KeyError ''model_case'')"
proof -
  have run: "train (example_env 1 50) example_args (start_locals no_files)
     = Inr (projr (train (example_env 1 50) example_args (start_locals no_files)))"
    by (simp add: example_run_defs)
  from inference_cannot_read_training_config [OF run] run show ?thesis by blast
qed

end
